theory Spec2Isabelle
  imports Complex_Main "HOL-Library.Word" "HOL-Library.Monad_Syntax"
begin

unbundle bit_operations_syntax

section \<open>Data model\<close>

text \<open>
  The Web Audio \<open>AudioBuffer\<close> read by both services: \<open>numberOfChannels\<close>,
  \<open>sampleRate\<close>, \<open>length\<close> (here \<open>length_buf\<close>, the number of frames) and one
  \<open>Float32Array\<close> per channel (\<open>channelData\<close>). A sample is a finite number, modelled
  as a \<open>real\<close>; the sample rate is taken to be a whole number of Hz. Comparisons,
  absolute values, the scaling by 32768 or 32767 and the truncations are exact on such
  samples; the sums and quotients of the correlation score are taken in exact arithmetic.
\<close>

record AudioBuffer =
  numberOfChannels :: nat
  sampleRate :: nat
  length_buf :: nat
  channelData :: "real list list"

text \<open>
  What the Web Audio API guarantees of every \<open>AudioBuffer\<close>: at least one channel, and
  every channel holds exactly \<open>length\<close> samples.
\<close>

definition wf_buffer :: "AudioBuffer \<Rightarrow> bool" where
  "wf_buffer b \<longleftrightarrow>
     0 < numberOfChannels b \<and>
     length (channelData b) = numberOfChannels b \<and>
     list_all (\<lambda>ch. length ch = length_buf b) (channelData b)"

text \<open>
  \<open>buffer.getChannelData(channel)\<close> throws (IndexSizeError) when the channel does not
  exist; a thrown exception is the value \<open>None\<close>.
\<close>

definition getChannelData :: "AudioBuffer \<Rightarrow> nat \<Rightarrow> real list option" where
  "getChannelData buffer channel =
     (if channel < numberOfChannels buffer then Some (channelData buffer ! channel) else None)"

text \<open>
  \<open>LoopPoint\<close> of \<open>types.ts\<close>: the fields \<open>id\<close>, \<open>start\<close>, \<open>end\<close>, \<open>score\<close>,
  \<open>name\<close>, each prefixed with \<open>lp_\<close>.
\<close>

record LoopPoint =
  lp_id :: nat
  lp_start :: int
  lp_end :: int
  lp_score :: int
  lp_name :: string

section \<open>Loop detection (audioDsp.ts)\<close>

subsection \<open>findZeroCrossing\<close>

text \<open>
  The \<open>for (let i = start; i < end; i++)\<close> loop of \<open>findZeroCrossing\<close>, carrying
  \<open>bestIndex\<close> and \<open>minVal\<close>. Every read is in range: \<open>0 \<le> start\<close> and
  \<open>end \<le> data.length - 1\<close>.
\<close>

function findZeroCrossing_loop :: "real list \<Rightarrow> int \<Rightarrow> int \<Rightarrow> int \<Rightarrow> real \<Rightarrow> int" where
  "findZeroCrossing_loop data i endi bestIndex minVal =
     (if i < endi then
        (if (data ! nat i \<le> 0 \<and> data ! nat (i + 1) > 0) \<or>
            (data ! nat i \<ge> 0 \<and> data ! nat (i + 1) < 0) then
           (let dist = \<bar>data ! nat i\<bar> in
            if dist < minVal then findZeroCrossing_loop data (i + 1) endi i dist
            else findZeroCrossing_loop data (i + 1) endi bestIndex minVal)
         else findZeroCrossing_loop data (i + 1) endi bestIndex minVal)
      else bestIndex)"
  by pat_completeness auto
termination
  by (relation "measure (\<lambda>(data, i, endi, bestIndex, minVal). nat (endi - i))") auto

declare findZeroCrossing_loop.simps [simp del]

definition findZeroCrossing :: "real list \<Rightarrow> int \<Rightarrow> int \<Rightarrow> int" where
  "findZeroCrossing data target windowSize =
     (let bestIndex = target;
          minVal = 1.0;
          start = max 0 (target - windowSize);
          endi = min (int (length data) - 1) (target + windowSize)
      in findZeroCrossing_loop data start endi bestIndex minVal)"

subsection \<open>calculateCorrelation\<close>

text \<open>The summation loop \<open>for (let i = 0; i < window; i++)\<close>.\<close>

function calculateCorrelation_loop ::
  "real list \<Rightarrow> int \<Rightarrow> int \<Rightarrow> int \<Rightarrow> int \<Rightarrow> real \<Rightarrow> real" where
  "calculateCorrelation_loop data idxA idxB window i sumv =
     (if i < window then
        calculateCorrelation_loop data idxA idxB window (i + 1)
          (sumv + \<bar>data ! nat (idxA + i) - data ! nat (idxB + i)\<bar>)
      else sumv)"
  by pat_completeness auto
termination
  by (relation "measure (\<lambda>(data, idxA, idxB, window, i, sumv). nat (window - i))") auto

declare calculateCorrelation_loop.simps [simp del]

definition calculateCorrelation :: "real list \<Rightarrow> int \<Rightarrow> int \<Rightarrow> int \<Rightarrow> real" where
  "calculateCorrelation data idxA idxB window =
     (if idxA < 0 \<or> idxB < 0 \<or> idxA + window \<ge> int (length data)
         \<or> idxB + window \<ge> int (length data) then 0
      else
        (let sumv = calculateCorrelation_loop data idxA idxB window 0 0;
             avgDiff = sumv / real_of_int window;
             score = max 0 (100 - (avgDiff * 200))
         in score))"

subsection \<open>detectLoopPoints\<close>

text \<open>
  The start-point scan \<open>for (let i = 0; i < maxStartIndex; i += searchStep)\<close> for one
  end point \<open>validEnd\<close>, carrying \<open>bestStart\<close> and \<open>bestScore\<close>. The two constants of
  the enclosing scope, \<open>searchStep\<close> and \<open>maxStartIndex\<close>, are functions of
  \<open>validEnd\<close> only.
\<close>

definition searchStep :: "int \<Rightarrow> int" where
  "searchStep validEnd = max 10 \<lfloor>real_of_int validEnd / 100\<rfloor>"

definition maxStartIndex :: "int \<Rightarrow> int" where
  "maxStartIndex validEnd = validEnd - 1000"

function startScan_loop :: "real list \<Rightarrow> int \<Rightarrow> int \<Rightarrow> int \<Rightarrow> real \<Rightarrow> int \<times> real" where
  "startScan_loop data validEnd i bestStart bestScore =
     (if i < maxStartIndex validEnd then
        (let candidateStart = findZeroCrossing data i 100 in
         if candidateStart \<ge> maxStartIndex validEnd then
           startScan_loop data validEnd (i + searchStep validEnd) bestStart bestScore
         else
           (let score = calculateCorrelation data candidateStart validEnd 500 in
            if score > bestScore then
              startScan_loop data validEnd (i + searchStep validEnd) candidateStart score
            else
              startScan_loop data validEnd (i + searchStep validEnd) bestStart bestScore))
      else (bestStart, bestScore))"
  by pat_completeness auto
termination
  by (relation "measure (\<lambda>(data, validEnd, i, bestStart, bestScore).
        nat (maxStartIndex validEnd - i))")
     (auto simp: searchStep_def)

declare startScan_loop.simps [simp del]

text \<open>Decimal rendering of a counter, for the template string \<open>`Auto Loop ${idCounter}`\<close>.\<close>

definition digit_char :: "nat \<Rightarrow> char" where
  "digit_char d = char_of (48 + d)"

function string_of_nat :: "nat \<Rightarrow> string" where
  "string_of_nat n =
     (if n < 10 then [digit_char n] else string_of_nat (n div 10) @ [digit_char (n mod 10)])"
  by pat_completeness auto
termination
  by (relation "measure id") auto

declare string_of_nat.simps [simp del]

text \<open>
  The body of \<open>candidateEndRegions.forEach\<close>. The closure updates \<open>points\<close> and
  \<open>idCounter\<close>; the pair is passed in and returned. \<open>idCounter++\<close> is evaluated for the
  \<open>id\<close> field before the template string reads the counter, so the name carries the
  incremented value.
\<close>

definition region_body :: "real list \<Rightarrow> int \<Rightarrow> LoopPoint list \<times> nat \<Rightarrow> LoopPoint list \<times> nat" where
  "region_body data regionEndTarget st =
     (let points = fst st;
          idCounter = snd st;
          windowSearch = 2000;
          validEnd = findZeroCrossing data regionEndTarget windowSearch
      in if real_of_int validEnd < 44100 / 2 then st
         else
           (let r = startScan_loop data validEnd 0 0 (- 1);
                bestStart = fst r;
                bestScore = snd r
            in if bestScore > 60 then
                 (points @ [\<lparr>lp_id = idCounter, lp_start = bestStart, lp_end = validEnd,
                              lp_score = round bestScore,
                              lp_name = ''Auto Loop '' @ string_of_nat (idCounter + 1)\<rparr>],
                  idCounter + 1)
               else st))"

definition candidateEndRegions :: "int \<Rightarrow> int list" where
  "candidateEndRegions len =
     filter (\<lambda>idx. idx > 1000)
       [len - 100, \<lfloor>real_of_int len * 0.75\<rfloor>, \<lfloor>real_of_int len * 0.5\<rfloor>]"

text \<open>
  \<open>points.sort((a, b) => b.score - a.score)\<close> is a stable sort by descending score,
  which is the stable insertion sort on the key \<open>- score\<close>; \<open>slice(0, 3)\<close> is
  \<open>take 3\<close>.
\<close>

definition detectLoopPoints :: "AudioBuffer \<Rightarrow> LoopPoint list option" where
  "detectLoopPoints buffer =
     do {
       data \<leftarrow> getChannelData buffer 0;
       let len = int (length data);
       let st = fold (region_body data) (candidateEndRegions len) ([], 1);
       let points = fst st;
       let results = take 3 (sort_key (\<lambda>p. - lp_score p) points);
       Some results
     }"

section \<open>WAV export (wavWriter.ts)\<close>

type_synonym byte = "8 word"

subsection \<open>Number conversions of the typed arrays and the DataView\<close>

text \<open>
  Storing a number into an \<open>Int16Array\<close> element, and \<open>setUint16\<close>/\<open>setUint32\<close>,
  first drop the fraction (rounding towards zero) and then keep the low 16 or 32 bits.
\<close>

definition js_trunc :: "real \<Rightarrow> int" where
  "js_trunc x = (if x < 0 then \<lceil>x\<rceil> else \<lfloor>x\<rfloor>)"

definition toInt16 :: "real \<Rightarrow> 16 word" where
  "toInt16 x = word_of_int (js_trunc x)"

text \<open>Little-endian byte images of 16-bit and 32-bit values.\<close>

definition le16 :: "16 word \<Rightarrow> byte list" where
  "le16 w = [ucast w, ucast (drop_bit 8 w)]"

definition le32 :: "32 word \<Rightarrow> byte list" where
  "le32 w = [ucast w, ucast (drop_bit 8 w), ucast (drop_bit 16 w), ucast (drop_bit 24 w)]"

text \<open>
  The DataView setters, always called with \<open>littleEndian = true\<close>. They throw a
  RangeError (\<open>None\<close>) when the write would pass the end of the view.
\<close>

definition setUint8 :: "byte list \<Rightarrow> nat \<Rightarrow> int \<Rightarrow> byte list option" where
  "setUint8 view byteOffset v =
     (if byteOffset + 1 \<le> length view then Some (view[byteOffset := word_of_int v]) else None)"

definition setUint16 :: "byte list \<Rightarrow> nat \<Rightarrow> int \<Rightarrow> byte list option" where
  "setUint16 view byteOffset v =
     (if byteOffset + 2 \<le> length view then
        (let w = (word_of_int v :: 16 word) in
         Some (view[byteOffset := ucast w, byteOffset + 1 := ucast (drop_bit 8 w)]))
      else None)"

definition setUint32 :: "byte list \<Rightarrow> nat \<Rightarrow> int \<Rightarrow> byte list option" where
  "setUint32 view byteOffset v =
     (if byteOffset + 4 \<le> length view then
        (let w = (word_of_int v :: 32 word) in
         Some (view[byteOffset := ucast w, byteOffset + 1 := ucast (drop_bit 8 w),
                    byteOffset + 2 := ucast (drop_bit 16 w),
                    byteOffset + 3 := ucast (drop_bit 24 w)]))
      else None)"

text \<open>\<open>Uint8Array.prototype.set(source, offset)\<close>: RangeError when the source does not fit.\<close>

definition set_bytes :: "byte list \<Rightarrow> byte list \<Rightarrow> nat \<Rightarrow> byte list option" where
  "set_bytes target source offset =
     (if offset + length source \<le> length target then
        Some (take offset target @ source @ drop (offset + length source) target)
      else None)"

subsection \<open>writeString\<close>

fun writeString :: "byte list \<Rightarrow> nat \<Rightarrow> string \<Rightarrow> byte list option" where
  "writeString view offset [] = Some view"
| "writeString view offset (c # cs) =
     do { view' \<leftarrow> setUint8 view offset (of_char c); writeString view' (offset + 1) cs }"

subsection \<open>Interleaving into the Int16Array\<close>

text \<open>
  The two nested loops that fill \<open>data\<close>. A read past the end of a channel array gives
  \<open>undefined\<close>, which the arithmetic turns into NaN and the store into 0; a store past the
  end of \<open>data\<close> is ignored, as \<open>list_update\<close> does.
\<close>

function channel_loop :: "AudioBuffer \<Rightarrow> nat \<Rightarrow> nat \<Rightarrow> 16 word list \<Rightarrow> 16 word list option" where
  "channel_loop buffer i channel data =
     (if channel < numberOfChannels buffer then
        do {
          chan \<leftarrow> getChannelData buffer channel;
          let v = (if i < length chan then
                     (let sample = chan ! i;
                          s = max (- 1) (min 1 sample)
                      in toInt16 (if s < 0 then s * 0x8000 else s * 0x7FFF))
                   else 0);
          channel_loop buffer i (channel + 1) (data[i * numberOfChannels buffer + channel := v])
        }
      else Some data)"
  by pat_completeness auto
termination
  by (relation "measure (\<lambda>(buffer, i, channel, data). numberOfChannels buffer - channel)") auto

declare channel_loop.simps [simp del]

function frame_loop :: "AudioBuffer \<Rightarrow> nat \<Rightarrow> 16 word list \<Rightarrow> 16 word list option" where
  "frame_loop buffer i data =
     (if i < length_buf buffer then
        do { data' \<leftarrow> channel_loop buffer i 0 data; frame_loop buffer (i + 1) data' }
      else Some data)"
  by pat_completeness auto
termination
  by (relation "measure (\<lambda>(buffer, i, data). length_buf buffer - i)") auto

declare frame_loop.simps [simp del]

subsection \<open>exportWavWithSmpl\<close>

text \<open>
  The writer state is the \<open>ArrayBuffer\<close> behind \<open>view\<close> together with \<open>pos\<close>. Each
  of the following is one line of the source: a write at \<open>pos\<close> followed by the
  advance of \<open>pos\<close>.
\<close>

type_synonym writer = "byte list \<times> nat"

definition put_string :: "string \<Rightarrow> writer \<Rightarrow> writer option" where
  "put_string str w = do { view \<leftarrow> writeString (fst w) (snd w) str; Some (view, snd w + 4) }"

definition put_u16 :: "int \<Rightarrow> writer \<Rightarrow> writer option" where
  "put_u16 v w = do { view \<leftarrow> setUint16 (fst w) (snd w) v; Some (view, snd w + 2) }"

definition put_u32 :: "int \<Rightarrow> writer \<Rightarrow> writer option" where
  "put_u32 v w = do { view \<leftarrow> setUint32 (fst w) (snd w) v; Some (view, snd w + 4) }"

definition put_pcm :: "byte list \<Rightarrow> nat \<Rightarrow> writer \<Rightarrow> writer option" where
  "put_pcm pcmData dataChunkSize w =
     do { target \<leftarrow> set_bytes (fst w) pcmData (snd w); Some (target, snd w + dataChunkSize) }"

text \<open>The \<open>if (loopPoint)\<close> block writing the \<open>smpl\<close> chunk.\<close>

definition put_smpl :: "nat \<Rightarrow> nat \<Rightarrow> LoopPoint \<Rightarrow> writer \<Rightarrow> writer option" where
  "put_smpl smplChunkSize rate loopPoint w =
     do {
       w \<leftarrow> put_string ''smpl'' w;
       w \<leftarrow> put_u32 (int smplChunkSize) w;
       w \<leftarrow> put_u32 0 w;
       w \<leftarrow> put_u32 0 w;
       w \<leftarrow> put_u32 (js_trunc (1000000000 / real rate)) w;
       w \<leftarrow> put_u32 60 w;
       w \<leftarrow> put_u32 0 w;
       w \<leftarrow> put_u32 0 w;
       w \<leftarrow> put_u32 0 w;
       w \<leftarrow> put_u32 1 w;
       w \<leftarrow> put_u32 0 w;
       w \<leftarrow> put_u32 0 w;
       w \<leftarrow> put_u32 0 w;
       w \<leftarrow> put_u32 (lp_start loopPoint) w;
       w \<leftarrow> put_u32 (lp_end loopPoint) w;
       w \<leftarrow> put_u32 0 w;
       put_u32 0 w
     }"

text \<open>
  \<open>new Uint8Array(data.buffer)\<close> shows the \<open>Int16Array\<close> in the byte order of the
  platform, which is little-endian on every platform the application is built for.
\<close>

definition exportWavWithSmpl :: "AudioBuffer \<Rightarrow> LoopPoint option \<Rightarrow> byte list option" where
  "exportWavWithSmpl buffer loopPoint =
     do {
       let numChannels = numberOfChannels buffer;
       let rate = sampleRate buffer;
       let format = 1;
       let bitDepth = 16;
       let lengthv = length_buf buffer * numChannels * 2;
       data \<leftarrow> frame_loop buffer 0 (replicate (length_buf buffer * numChannels) 0);
       let dataChunkSize = lengthv;
       let fmtChunkSize = 16;
       let smplChunkSize = (if loopPoint \<noteq> None then 36 + 24 else 0);
       let fileSize = 4 + (8 + fmtChunkSize) + (8 + dataChunkSize)
                        + (if loopPoint \<noteq> None then 8 + smplChunkSize else 0);
       let w = (replicate (fileSize + 8) 0, 0);
       w \<leftarrow> put_string ''RIFF'' w;
       w \<leftarrow> put_u32 (int fileSize) w;
       w \<leftarrow> put_string ''WAVE'' w;
       w \<leftarrow> put_string ''fmt '' w;
       w \<leftarrow> put_u32 (int fmtChunkSize) w;
       w \<leftarrow> put_u16 format w;
       w \<leftarrow> put_u16 (int numChannels) w;
       w \<leftarrow> put_u32 (int rate) w;
       w \<leftarrow> put_u32 (int (rate * numChannels * 2)) w;
       w \<leftarrow> put_u16 (int (numChannels * 2)) w;
       w \<leftarrow> put_u16 bitDepth w;
       w \<leftarrow> put_string ''data'' w;
       w \<leftarrow> put_u32 (int dataChunkSize) w;
       let pcmData = concat (map le16 data);
       w \<leftarrow> put_pcm pcmData dataChunkSize w;
       w \<leftarrow> (case loopPoint of
               Some lp \<Rightarrow> put_smpl smplChunkSize rate lp w
             | None \<Rightarrow> Some w);
       Some (fst w)
     }"

section \<open>Auxiliary definitions for the properties\<close>

subsection \<open>Zero crossings and silent input\<close>

text \<open>
  The sign-change test of \<open>findZeroCrossing\<close> at index \<open>i\<close>, as a predicate.
\<close>

definition is_zero_crossing :: "real list \<Rightarrow> int \<Rightarrow> bool" where
  "is_zero_crossing data i \<longleftrightarrow>
     (data ! nat i \<le> 0 \<and> data ! nat (i + 1) > 0) \<or> (data ! nat i \<ge> 0 \<and> data ! nat (i + 1) < 0)"

text \<open>
  Whether the scanned window \<open>[max(0, target - windowSize), min(length - 1, target + windowSize))\<close>
  holds a sign change that \<open>findZeroCrossing\<close> can select, that is, one whose
  sample magnitude is below the initial \<open>minVal = 1.0\<close>.
\<close>

definition window_has_crossing :: "real list \<Rightarrow> int \<Rightarrow> int \<Rightarrow> bool" where
  "window_has_crossing data target windowSize \<longleftrightarrow>
     (\<exists>i \<in> {max 0 (target - windowSize) ..< min (int (length data) - 1) (target + windowSize)}.
        is_zero_crossing data i \<and> \<bar>data ! nat i\<bar> < 1)"

text \<open>
  What \<open>findZeroCrossing\<close> returns for a probe: the probe itself when the window has
  nothing to select, and otherwise a selectable sign change inside the window.
\<close>

definition snapped :: "real list \<Rightarrow> int \<Rightarrow> int \<Rightarrow> int \<Rightarrow> bool" where
  "snapped data target windowSize r \<longleftrightarrow>
     (r = target \<and> \<not> window_has_crossing data target windowSize) \<or>
     (max 0 (target - windowSize) \<le> r \<and>
      r < min (int (length data) - 1) (target + windowSize) \<and>
      is_zero_crossing data r \<and> \<bar>data ! nat r\<bar> < 1)"

text \<open>
  A candidate pushed by the \<open>forEach\<close> body for the probed end position \<open>t\<close>.
\<close>

definition accepted_at :: "real list \<Rightarrow> int \<Rightarrow> LoopPoint \<Rightarrow> bool" where
  "accepted_at data t p \<longleftrightarrow>
     lp_end p = findZeroCrossing data t 2000 \<and> 22050 \<le> lp_end p \<and>
     lp_start p = fst (startScan_loop data (lp_end p) 0 0 (- 1)) \<and>
     60 < snd (startScan_loop data (lp_end p) 0 0 (- 1)) \<and>
     lp_score p = round (snd (startScan_loop data (lp_end p) 0 0 (- 1)))"

text \<open>
  Pure silence of \<open>n\<close> samples, and the mono buffer holding it.
\<close>

definition silence :: "nat \<Rightarrow> real list" where
  "silence n = replicate n 0"

definition silent_buffer :: "nat \<Rightarrow> nat \<Rightarrow> AudioBuffer" where
  "silent_buffer n rate =
     \<lparr>numberOfChannels = 1, sampleRate = rate, length_buf = n, channelData = [silence n]\<rparr>"

text \<open>
  The 2-second, 44100 Hz silent buffer and the two candidates found in it.
\<close>

definition silent_2s :: AudioBuffer where
  "silent_2s = silent_buffer 88200 44100"

definition loop_75 :: LoopPoint where
  "loop_75 = \<lparr>lp_id = 1, lp_start = 0, lp_end = 66150, lp_score = 100, lp_name = ''Auto Loop 2''\<rparr>"

definition loop_50 :: LoopPoint where
  "loop_50 = \<lparr>lp_id = 2, lp_start = 0, lp_end = 44100, lp_score = 100, lp_name = ''Auto Loop 3''\<rparr>"

text \<open>
  A three-sample buffer, far below the half-second floor.
\<close>

definition short_buffer :: AudioBuffer where
  "short_buffer =
     \<lparr>numberOfChannels = 1, sampleRate = 44100, length_buf = 3, channelData = [[0.5, - 0.5, 0.25]]\<rparr>"

text \<open>
  A 2-second, 44100 Hz buffer that is silent except for one negative and one positive
  sample at 66000 and 66001, and the candidate found at the sign change next to them.
\<close>

definition blip :: "real list" where
  "blip = replicate 66000 0 @ [- 0.5, 0.5] @ replicate 22198 0"

definition blip_2s :: AudioBuffer where
  "blip_2s = \<lparr>numberOfChannels = 1, sampleRate = 44100, length_buf = 88200, channelData = [blip]\<rparr>"

definition loop_blip :: LoopPoint where
  "loop_blip = \<lparr>lp_id = 1, lp_start = 0, lp_end = 65999, lp_score = 100, lp_name = ''Auto Loop 2''\<rparr>"

subsection \<open>The layout of the written file\<close>

text \<open>
  The bytes of an ASCII tag, as \<open>writeString\<close> stores them.
\<close>

definition ascii :: "string \<Rightarrow> byte list" where
  "ascii str = map (\<lambda>c. word_of_int (of_char c)) str"

text \<open>
  The writer state after the bytes \<open>pre\<close> have been written into a zero-filled
  buffer with \<open>k\<close> bytes still untouched.
\<close>

definition wstate :: "byte list \<Rightarrow> nat \<Rightarrow> writer" where
  "wstate pre k = (pre @ replicate k 0, length pre)"

text \<open>
  The value stored for one channel and frame, and the whole \<open>Int16Array\<close> in
  interleaved order.
\<close>

definition pcm_value :: "AudioBuffer \<Rightarrow> nat \<Rightarrow> nat \<Rightarrow> 16 word" where
  "pcm_value b channel i =
     (let chan = channelData b ! channel in
      if i < length chan then
        (let sample = chan ! i; s = max (- 1) (min 1 sample)
         in toInt16 (if s < 0 then s * 0x8000 else s * 0x7FFF))
      else 0)"

definition interleaved :: "AudioBuffer \<Rightarrow> 16 word list" where
  "interleaved b =
     map (\<lambda>k. pcm_value b (k mod numberOfChannels b) (k div numberOfChannels b))
       [0..<length_buf b * numberOfChannels b]"

text \<open>
  The 44 bytes before the samples, the 68 bytes of the \<open>smpl\<close> chunk, and the
  whole file as one concatenation.
\<close>

definition wav_header :: "nat \<Rightarrow> nat \<Rightarrow> nat \<Rightarrow> nat \<Rightarrow> byte list" where
  "wav_header fileSize numChannels rate dataChunkSize =
     ascii ''RIFF'' @ le32 (word_of_int (int fileSize)) @ ascii ''WAVE'' @
     ascii ''fmt '' @ le32 (word_of_int 16) @ le16 (word_of_int 1) @
     le16 (word_of_int (int numChannels)) @ le32 (word_of_int (int rate)) @
     le32 (word_of_int (int (rate * numChannels * 2))) @
     le16 (word_of_int (int (numChannels * 2))) @ le16 (word_of_int 16) @
     ascii ''data'' @ le32 (word_of_int (int dataChunkSize))"

definition smpl_chunk :: "nat \<Rightarrow> LoopPoint \<Rightarrow> byte list" where
  "smpl_chunk rate loopPoint =
     ascii ''smpl'' @ le32 (word_of_int 60) @
     le32 (word_of_int 0) @ le32 (word_of_int 0) @
     le32 (word_of_int (js_trunc (1000000000 / real rate))) @
     le32 (word_of_int 60) @ le32 (word_of_int 0) @ le32 (word_of_int 0) @
     le32 (word_of_int 0) @ le32 (word_of_int 1) @ le32 (word_of_int 0) @
     le32 (word_of_int 0) @ le32 (word_of_int 0) @
     le32 (word_of_int (lp_start loopPoint)) @ le32 (word_of_int (lp_end loopPoint)) @
     le32 (word_of_int 0) @ le32 (word_of_int 0)"

definition wav_image :: "AudioBuffer \<Rightarrow> LoopPoint option \<Rightarrow> byte list" where
  "wav_image b loopPoint =
     wav_header
       (4 + (8 + 16) + (8 + length_buf b * numberOfChannels b * 2)
          + (if loopPoint \<noteq> None then 8 + (36 + 24) else 0))
       (numberOfChannels b) (sampleRate b) (length_buf b * numberOfChannels b * 2) @
     concat (map le16 (interleaved b)) @
     (case loopPoint of Some lp \<Rightarrow> smpl_chunk (sampleRate b) lp | None \<Rightarrow> [])"

text \<open>
  The scaled sample before it is stored into the \<open>Int16Array\<close>.
\<close>

definition scaled :: "real \<Rightarrow> real" where
  "scaled sample = (let s = max (- 1) (min 1 sample) in if s < 0 then s * 0x8000 else s * 0x7FFF)"

text \<open>
  The declared outer size with a loop present, as the specification computes it, and
  the byte offset at which the \<open>smpl\<close> chunk starts. Within the chunk, the loop
  start is at offset 52 and the loop end at offset 56.
\<close>

definition outerSize :: "AudioBuffer \<Rightarrow> nat" where
  "outerSize b = 4 + (8 + 16) + (8 + length_buf b * numberOfChannels b * 2) + (8 + 60)"

definition smplOffset :: "AudioBuffer \<Rightarrow> nat" where
  "smplOffset b = 12 + (8 + 16) + (8 + length_buf b * numberOfChannels b * 2)"

text \<open>
  A loop whose start and end both index a frame of the buffer.
\<close>

definition loop_in_range :: "AudioBuffer \<Rightarrow> LoopPoint \<Rightarrow> bool" where
  "loop_in_range b lp \<longleftrightarrow>
     0 \<le> lp_start lp \<and> lp_start lp \<le> int (length_buf b) - 1 \<and>
     0 \<le> lp_end lp \<and> lp_end lp \<le> int (length_buf b) - 1"

subsection \<open>Reading a file back\<close>

text \<open>
  Little-endian reads (the \<open>DataView\<close> getters): \<open>None\<close> past the end.
\<close>

definition word16_of :: "byte \<Rightarrow> byte \<Rightarrow> 16 word" where
  "word16_of b0 b1 = ucast b0 OR push_bit 8 (ucast b1)"

definition word32_of :: "byte \<Rightarrow> byte \<Rightarrow> byte \<Rightarrow> byte \<Rightarrow> 32 word" where
  "word32_of b0 b1 b2 b3 =
     ucast b0 OR push_bit 8 (ucast b1) OR push_bit 16 (ucast b2) OR push_bit 24 (ucast b3)"

definition getUint16 :: "byte list \<Rightarrow> nat \<Rightarrow> nat option" where
  "getUint16 bs off =
     (if off + 2 \<le> length bs then Some (unat (word16_of (bs ! off) (bs ! (off + 1)))) else None)"

definition getUint32 :: "byte list \<Rightarrow> nat \<Rightarrow> nat option" where
  "getUint32 bs off =
     (if off + 4 \<le> length bs then
        Some (unat (word32_of (bs ! off) (bs ! (off + 1)) (bs ! (off + 2)) (bs ! (off + 3))))
      else None)"

text \<open>
  The data block as signed 16-bit samples.
\<close>

fun decode_pcm :: "byte list \<Rightarrow> int list" where
  "decode_pcm (lo # hi # rest) = sint (word16_of lo hi) # decode_pcm rest"
| "decode_pcm _ = []"

text \<open>
  A reader of the header, the format block and the data block of a file of this
  layout: it checks the four tags, the format block size, the PCM format code and the bit
  depth, and returns the channel count, the sample rate and the interleaved samples.
\<close>

record wav_contents =
  wav_channels :: nat
  wav_rate :: nat
  wav_samples :: "int list"

definition parse_wav :: "byte list \<Rightarrow> wav_contents option" where
  "parse_wav bs =
     do {
       fmtSize \<leftarrow> getUint32 bs 16;
       format \<leftarrow> getUint16 bs 20;
       numChannels \<leftarrow> getUint16 bs 22;
       rate \<leftarrow> getUint32 bs 24;
       bitDepth \<leftarrow> getUint16 bs 34;
       dataSize \<leftarrow> getUint32 bs 40;
       if take 4 bs = ascii ''RIFF'' \<and> take 4 (drop 8 bs) = ascii ''WAVE'' \<and>
          take 4 (drop 12 bs) = ascii ''fmt '' \<and> fmtSize = 16 \<and> format = 1 \<and>
          bitDepth = 16 \<and> take 4 (drop 36 bs) = ascii ''data'' \<and>
          44 + dataSize \<le> length bs
       then Some \<lparr>wav_channels = numChannels, wav_rate = rate,
                   wav_samples = decode_pcm (take dataSize (drop 44 bs))\<rparr>
       else None
     }"

text \<open>
  The inverse of the writer's scaling: negative values were scaled by 32768, the
  others by 32767.
\<close>

definition dequantize :: "int \<Rightarrow> real" where
  "dequantize q = (if q < 0 then real_of_int q / 32768 else real_of_int q / 32767)"

text \<open>
  Two small buffers with two channels and with one, and loops for them.
\<close>

definition stereo_buffer :: AudioBuffer where
  "stereo_buffer =
     \<lparr>numberOfChannels = 2, sampleRate = 44100, length_buf = 2,
        channelData = [[1, - 1], [0.5, - 0.25]]\<rparr>"

definition stereo_loop :: LoopPoint where
  "stereo_loop = \<lparr>lp_id = 1, lp_start = 0, lp_end = 1, lp_score = 100, lp_name = ''Loop''\<rparr>"

definition two_frames :: AudioBuffer where
  "two_frames = \<lparr>numberOfChannels = 1, sampleRate = 44100, length_buf = 2, channelData = [[0, 0]]\<rparr>"

definition loop_past_end :: LoopPoint where
  "loop_past_end = \<lparr>lp_id = 1, lp_start = 0, lp_end = 2, lp_score = 100, lp_name = ''Loop''\<rparr>"

section \<open>Properties of the loop detection\<close>

subsection \<open>findZeroCrossing\<close>

lemma findZeroCrossing_loop_unfold:
  "findZeroCrossing_loop data i endi bestIndex minVal =
     (if i < endi then
        (if is_zero_crossing data i \<and> \<bar>data ! nat i\<bar> < minVal
         then findZeroCrossing_loop data (i + 1) endi i \<bar>data ! nat i\<bar>
         else findZeroCrossing_loop data (i + 1) endi bestIndex minVal)
      else bestIndex)"
  by (subst findZeroCrossing_loop.simps) (simp only: is_zero_crossing_def Let_def if_distrib if_cancel split: if_splits, meson)

lemma findZeroCrossing_loop_cases:
  "findZeroCrossing_loop data i endi bestIndex minVal = r \<Longrightarrow>
   r = bestIndex \<or> (i \<le> r \<and> r < endi \<and> is_zero_crossing data r \<and> \<bar>data ! nat r\<bar> < minVal)"
proof (induction data i endi bestIndex minVal rule: findZeroCrossing_loop.induct)
  case (1 data i endi bestIndex minVal)
  show ?case
  proof (cases "i < endi")
    case False
    with "1.prems" show ?thesis by (simp add: findZeroCrossing_loop_unfold [of data i])
  next
    case lt: True
    show ?thesis
    proof (cases "is_zero_crossing data i \<and> \<bar>data ! nat i\<bar> < minVal")
      case False
      with lt "1.prems" have "findZeroCrossing_loop data (i + 1) endi bestIndex minVal = r"
        by (subst (asm) findZeroCrossing_loop_unfold) auto
      with False lt "1.IH"(2,3)
      have "r = bestIndex \<or> (i + 1 \<le> r \<and> r < endi \<and> is_zero_crossing data r \<and> \<bar>data ! nat r\<bar> < minVal)"
        unfolding is_zero_crossing_def Let_def by blast
      then show ?thesis by auto
    next
      case True
      with lt "1.prems" have "findZeroCrossing_loop data (i + 1) endi i \<bar>data ! nat i\<bar> = r"
        by (subst (asm) findZeroCrossing_loop_unfold) auto
      with True lt "1.IH"(1)
      have "r = i \<or> (i + 1 \<le> r \<and> r < endi \<and> is_zero_crossing data r \<and> \<bar>data ! nat r\<bar> < \<bar>data ! nat i\<bar>)"
        unfolding is_zero_crossing_def Let_def by blast
      with lt True show ?thesis by auto
    qed
  qed
qed

lemma findZeroCrossing_cases:
  "findZeroCrossing data target windowSize = r \<Longrightarrow>
   r = target \<or>
   (max 0 (target - windowSize) \<le> r \<and> r < min (int (length data) - 1) (target + windowSize) \<and>
    is_zero_crossing data r \<and> \<bar>data ! nat r\<bar> < 1)"
  unfolding findZeroCrossing_def Let_def
  by (drule findZeroCrossing_loop_cases) simp

lemma findZeroCrossing_nonneg: "0 \<le> target \<Longrightarrow> 0 \<le> findZeroCrossing data target windowSize"
  using findZeroCrossing_cases [OF refl, of data target windowSize] by auto

lemma findZeroCrossing_less_length:
  "target < int (length data) \<Longrightarrow> findZeroCrossing data target windowSize < int (length data)"
  using findZeroCrossing_cases [OF refl, of data target windowSize] by auto

lemma findZeroCrossing_near:
  "\<bar>findZeroCrossing data target windowSize - target\<bar> \<le> max 0 windowSize"
  using findZeroCrossing_cases [OF refl, of data target windowSize] by auto

lemma findZeroCrossing_loop_found:
  "i \<le> k \<Longrightarrow> k < endi \<Longrightarrow> is_zero_crossing data k \<Longrightarrow> \<bar>data ! nat k\<bar> < minVal \<Longrightarrow>
   findZeroCrossing_loop data i endi bestIndex minVal = r \<Longrightarrow>
   i \<le> r \<and> r < endi \<and> is_zero_crossing data r \<and> \<bar>data ! nat r\<bar> < minVal"
proof (induction data i endi bestIndex minVal rule: findZeroCrossing_loop.induct)
  case (1 data i endi bestIndex minVal)
  from "1.prems" have lt: "i < endi" by simp
  show ?case
  proof (cases "is_zero_crossing data i \<and> \<bar>data ! nat i\<bar> < minVal")
    case True
    with lt "1.prems"(5) have "findZeroCrossing_loop data (i + 1) endi i \<bar>data ! nat i\<bar> = r"
      by (subst (asm) findZeroCrossing_loop_unfold) auto
    from findZeroCrossing_loop_cases [OF this] True lt show ?thesis by auto
  next
    case False
    with "1.prems" have ik: "i + 1 \<le> k" by (cases "i = k") auto
    from False lt "1.prems"(5) have eq: "findZeroCrossing_loop data (i + 1) endi bestIndex minVal = r"
      by (subst (asm) findZeroCrossing_loop_unfold) auto
    have "i + 1 \<le> r \<and> r < endi \<and> is_zero_crossing data r \<and> \<bar>data ! nat r\<bar> < minVal"
    proof (cases "is_zero_crossing data i")
      case True
      with False have nm: "\<not> \<bar>data ! nat i\<bar> < minVal" by simp
      show ?thesis
        using "1.IH"(2) [OF lt _ refl nm ik "1.prems"(2,3,4) eq] True
        unfolding is_zero_crossing_def by blast
    next
      case False
      show ?thesis
        using "1.IH"(3) [OF lt _ ik "1.prems"(2,3,4) eq] False
        unfolding is_zero_crossing_def by blast
    qed
    then show ?thesis by auto
  qed
qed

lemma findZeroCrossing_snapped:
  "snapped data target windowSize (findZeroCrossing data target windowSize)"
proof (cases "window_has_crossing data target windowSize")
  case True
  then obtain k where k: "max 0 (target - windowSize) \<le> k"
      "k < min (int (length data) - 1) (target + windowSize)"
      "is_zero_crossing data k" "\<bar>data ! nat k\<bar> < 1"
    by (auto simp: window_has_crossing_def)
  have "findZeroCrossing_loop data (max 0 (target - windowSize))
          (min (int (length data) - 1) (target + windowSize)) target 1
        = findZeroCrossing data target windowSize"
    by (simp add: findZeroCrossing_def Let_def)
  from findZeroCrossing_loop_found [OF k this] show ?thesis
    by (simp add: snapped_def)
next
  case False
  with findZeroCrossing_cases [OF refl, of data target windowSize] show ?thesis
    by (auto simp: snapped_def)
qed

subsection \<open>calculateCorrelation\<close>

lemma calculateCorrelation_loop_mono:
  "sumv \<le> calculateCorrelation_loop data idxA idxB window i sumv"
proof (induction data idxA idxB window i sumv rule: calculateCorrelation_loop.induct)
  case (1 data idxA idxB window i sumv)
  show ?case
  proof (cases "i < window")
    case True
    have "sumv \<le> sumv + \<bar>data ! nat (idxA + i) - data ! nat (idxB + i)\<bar>" by simp
    also have "\<dots> \<le> calculateCorrelation_loop data idxA idxB window (i + 1)
                      (sumv + \<bar>data ! nat (idxA + i) - data ! nat (idxB + i)\<bar>)"
      using "1.IH" True by simp
    finally show ?thesis using True by (subst calculateCorrelation_loop.simps) simp
  next
    case False
    then show ?thesis by (subst calculateCorrelation_loop.simps) simp
  qed
qed

lemma calculateCorrelation_range:
  "0 \<le> calculateCorrelation data idxA idxB window"
  by (simp add: calculateCorrelation_def Let_def)

lemma calculateCorrelation_le_100:
  "0 \<le> window \<Longrightarrow> calculateCorrelation data idxA idxB window \<le> 100"
proof -
  assume w: "0 \<le> window"
  have "0 \<le> calculateCorrelation_loop data idxA idxB window 0 0"
    by (rule calculateCorrelation_loop_mono)
  then have "0 \<le> calculateCorrelation_loop data idxA idxB window 0 0 / real_of_int window * 200"
    using w by simp
  then show ?thesis by (simp add: calculateCorrelation_def Let_def)
qed

lemma calculateCorrelation_pos:
  "0 < calculateCorrelation data idxA idxB window \<Longrightarrow>
   0 \<le> idxA \<and> 0 \<le> idxB \<and> idxA + window < int (length data) \<and> idxB + window < int (length data)"
  by (auto simp: calculateCorrelation_def split: if_splits)

subsection \<open>The start scan\<close>

lemma searchStep_eq: "searchStep validEnd = max 10 (validEnd div 100)"
  by (simp add: searchStep_def floor_divide_of_int_eq [of validEnd 100, simplified])

lemma searchStep_ge: "10 \<le> searchStep validEnd"
  by (simp add: searchStep_def)

lemma startScan_loop_result:
  "startScan_loop data validEnd i bestStart bestScore = (s, c) \<Longrightarrow>
   (s = bestStart \<and> c = bestScore) \<or>
   (\<exists>j. i \<le> j \<and> j < maxStartIndex validEnd \<and> searchStep validEnd dvd (j - i) \<and>
        s = findZeroCrossing data j 100 \<and> s < maxStartIndex validEnd \<and>
        c = calculateCorrelation data s validEnd 500 \<and> bestScore < c)"
proof (induction data validEnd i bestStart bestScore rule: startScan_loop.induct)
  case (1 data validEnd i bestStart bestScore)
  let ?step = "searchStep validEnd"
  let ?cand = "findZeroCrossing data i 100"
  let ?score = "calculateCorrelation data ?cand validEnd 500"
  have step: "0 < ?step" using searchStep_ge [of validEnd] by simp
  show ?case
  proof (cases "i < maxStartIndex validEnd")
    case False
    with "1.prems" show ?thesis by (subst (asm) startScan_loop.simps) simp
  next
    case lt: True
    show ?thesis
    proof (cases "?cand < maxStartIndex validEnd \<and> ?score > bestScore")
      case True
      with lt "1.prems" have "startScan_loop data validEnd (i + ?step) ?cand ?score = (s, c)"
        by (subst (asm) startScan_loop.simps) (simp add: Let_def)
      with True lt "1.IH"(2) [OF lt refl _ refl]
      have "(s = ?cand \<and> c = ?score) \<or>
        (\<exists>j. i + ?step \<le> j \<and> j < maxStartIndex validEnd \<and> ?step dvd (j - (i + ?step)) \<and>
        s = findZeroCrossing data j 100 \<and> s < maxStartIndex validEnd \<and>
        c = calculateCorrelation data s validEnd 500 \<and> ?score < c)"
        by simp
      then show ?thesis
      proof
        assume "s = ?cand \<and> c = ?score"
        with True lt show ?thesis by (intro disjI2 exI [of _ i]) simp
      next
        assume "\<exists>j. i + ?step \<le> j \<and> j < maxStartIndex validEnd \<and> ?step dvd (j - (i + ?step)) \<and>
        s = findZeroCrossing data j 100 \<and> s < maxStartIndex validEnd \<and>
        c = calculateCorrelation data s validEnd 500 \<and> ?score < c"
        then obtain j where j: "i + ?step \<le> j" "j < maxStartIndex validEnd" "?step dvd (j - (i + ?step))"
          "s = findZeroCrossing data j 100" "s < maxStartIndex validEnd"
          "c = calculateCorrelation data s validEnd 500" "?score < c" by blast
        have "j - i = (j - (i + ?step)) + ?step" by simp
        then have "?step dvd (j - i)" using j(3) by (metis dvd_add_triv_right_iff)
        with j True step show ?thesis by (intro disjI2 exI [of _ j]) simp
      qed
    next
      case False
      with lt "1.prems" have "startScan_loop data validEnd (i + ?step) bestStart bestScore = (s, c)"
        by (subst (asm) startScan_loop.simps) (auto simp: Let_def split: if_splits)
      moreover have "startScan_loop data validEnd (i + ?step) bestStart bestScore = (s, c) \<Longrightarrow>
        (s = bestStart \<and> c = bestScore) \<or>
        (\<exists>j. i + ?step \<le> j \<and> j < maxStartIndex validEnd \<and> ?step dvd (j - (i + ?step)) \<and>
        s = findZeroCrossing data j 100 \<and> s < maxStartIndex validEnd \<and>
        c = calculateCorrelation data s validEnd 500 \<and> bestScore < c)"
        using False lt "1.IH"(1) [OF lt refl] "1.IH"(3) [OF lt refl _ refl]
        by (cases "?cand < maxStartIndex validEnd") auto
      ultimately have "(s = bestStart \<and> c = bestScore) \<or>
        (\<exists>j. i + ?step \<le> j \<and> j < maxStartIndex validEnd \<and> ?step dvd (j - (i + ?step)) \<and>
        s = findZeroCrossing data j 100 \<and> s < maxStartIndex validEnd \<and>
        c = calculateCorrelation data s validEnd 500 \<and> bestScore < c)" by blast
      then show ?thesis
      proof
        assume "s = bestStart \<and> c = bestScore"
        then show ?thesis by simp
      next
        assume "\<exists>j. i + ?step \<le> j \<and> j < maxStartIndex validEnd \<and> ?step dvd (j - (i + ?step)) \<and>
        s = findZeroCrossing data j 100 \<and> s < maxStartIndex validEnd \<and>
        c = calculateCorrelation data s validEnd 500 \<and> bestScore < c"
        then obtain j where j: "i + ?step \<le> j" "j < maxStartIndex validEnd" "?step dvd (j - (i + ?step))"
          "s = findZeroCrossing data j 100" "s < maxStartIndex validEnd"
          "c = calculateCorrelation data s validEnd 500" "bestScore < c" by blast
        have "j - i = (j - (i + ?step)) + ?step" by simp
        then have "?step dvd (j - i)" using j(3) by (metis dvd_add_triv_right_iff)
        with j step show ?thesis by (intro disjI2 exI [of _ j]) simp
      qed
    qed
  qed
qed

subsection \<open>The candidates of a run\<close>

lemma region_body_points:
  "p \<in> set (fst (region_body data t st)) \<Longrightarrow> p \<in> set (fst st) \<or> accepted_at data t p"
  by (auto simp: region_body_def Let_def accepted_at_def split: if_splits)

lemma region_body_length:
  "length (fst (region_body data t st)) \<le> Suc (length (fst st))"
  by (simp add: region_body_def Let_def)

lemma fold_region_body_points:
  "p \<in> set (fst (fold (region_body data) ts st)) \<Longrightarrow>
   p \<in> set (fst st) \<or> (\<exists>t \<in> set ts. accepted_at data t p)"
proof (induction ts arbitrary: st)
  case Nil
  then show ?case by simp
next
  case (Cons t ts)
  from Cons.prems have "p \<in> set (fst (fold (region_body data) ts (region_body data t st)))"
    by simp
  from Cons.IH [OF this] region_body_points [of p data t st] show ?case by auto
qed

lemma accepted_at_props:
  assumes "accepted_at data t p"
  shows "\<exists>j. 0 \<le> j \<and> j < lp_end p - 1000 \<and> searchStep (lp_end p) dvd j \<and>
             lp_start p = findZeroCrossing data j 100 \<and>
             lp_start p < lp_end p - 1000 \<and>
             lp_score p = round (calculateCorrelation data (lp_start p) (lp_end p) 500) \<and>
             60 < calculateCorrelation data (lp_start p) (lp_end p) 500"
proof -
  let ?r = "startScan_loop data (lp_end p) 0 0 (- 1)"
  from assms have a: "lp_start p = fst ?r" "60 < snd ?r" "lp_score p = round (snd ?r)"
    unfolding accepted_at_def by blast+
  have "?r = (fst ?r, snd ?r)" by simp
  from startScan_loop_result [OF this] a(2)
  obtain j where "0 \<le> j" "j < maxStartIndex (lp_end p)" "searchStep (lp_end p) dvd (j - 0)"
    "fst ?r = findZeroCrossing data j 100" "fst ?r < maxStartIndex (lp_end p)"
    "snd ?r = calculateCorrelation data (fst ?r) (lp_end p) 500"
    by auto
  with a show ?thesis by (intro exI [of _ j]) (simp add: maxStartIndex_def)
qed

lemma accepted_at_bounds:
  assumes "accepted_at data t p"
  shows "0 \<le> lp_start p" and "lp_start p < lp_end p - 1000"
    and "lp_end p + 500 < int (length data)" and "60 \<le> lp_score p" and "lp_score p \<le> 100"
proof -
  from accepted_at_props [OF assms] obtain j where j: "0 \<le> j"
    "lp_start p = findZeroCrossing data j 100" "lp_start p < lp_end p - 1000"
    "lp_score p = round (calculateCorrelation data (lp_start p) (lp_end p) 500)"
    "60 < calculateCorrelation data (lp_start p) (lp_end p) 500" by blast
  show "0 \<le> lp_start p" using j(1,2) findZeroCrossing_nonneg by simp
  show "lp_start p < lp_end p - 1000" by (rule j(3))
  have "0 < calculateCorrelation data (lp_start p) (lp_end p) 500" using j(5) by simp
  from calculateCorrelation_pos [OF this] show "lp_end p + 500 < int (length data)" by simp
  have "round (60 :: real) \<le> round (calculateCorrelation data (lp_start p) (lp_end p) 500)"
    using j(5) by (intro round_mono) simp
  then show "60 \<le> lp_score p" using j(4) by simp
  have "round (calculateCorrelation data (lp_start p) (lp_end p) 500) \<le> round (100 :: real)"
    by (intro round_mono calculateCorrelation_le_100) simp
  then show "lp_score p \<le> 100" using j(4) by simp
qed

lemma detectLoopPoints_Some:
  "0 < numberOfChannels b \<Longrightarrow> \<exists>rs. detectLoopPoints b = Some rs"
  by (simp add: detectLoopPoints_def getChannelData_def Let_def)

lemma detectLoopPoints_points:
  assumes "detectLoopPoints b = Some rs" and "p \<in> set rs"
  shows "\<exists>t \<in> set (candidateEndRegions (int (length (channelData b ! 0)))).
           accepted_at (channelData b ! 0) t p"
proof -
  let ?data = "channelData b ! 0"
  let ?st = "fold (region_body ?data) (candidateEndRegions (int (length ?data))) ([], 1)"
  from assms(1) have rs: "rs = take 3 (sort_key (\<lambda>p. - lp_score p) (fst ?st))"
    by (auto simp: detectLoopPoints_def getChannelData_def Let_def split: if_splits)
  with assms(2) have "p \<in> set (fst ?st)" by (auto dest: in_set_takeD)
  from fold_region_body_points [OF this] show ?thesis by simp
qed

lemma wf_buffer_channel0:
  "wf_buffer b \<Longrightarrow> length (channelData b ! 0) = length_buf b"
  by (cases "channelData b") (auto simp: wf_buffer_def)

lemma candidateEndRegions_bounds:
  assumes "t \<in> set (candidateEndRegions len)"
  shows "1000 < t" and "t < len"
proof -
  from assms show "1000 < t" by (auto simp: candidateEndRegions_def split: if_splits)
  from assms have t: "1000 < t" "t = len - 100 \<or> t = \<lfloor>real_of_int len * 0.75\<rfloor> \<or> t = \<lfloor>real_of_int len * 0.5\<rfloor>"
    by (auto simp: candidateEndRegions_def split: if_splits)
  have pos: "0 < len" if "1000 < \<lfloor>real_of_int len * c\<rfloor>" "0 \<le> c" for c :: real
  proof (rule ccontr)
    assume "\<not> 0 < len"
    then have "real_of_int len * c \<le> 0" using that(2) by (simp add: mult_nonpos_nonneg)
    then have "\<lfloor>real_of_int len * c\<rfloor> \<le> 0" by (simp add: floor_le_iff)
    with that(1) show False by simp
  qed
  from t(2) show "t < len"
  proof (elim disjE)
    assume "t = len - 100" then show ?thesis by simp
  next
    assume e: "t = \<lfloor>real_of_int len * 0.75\<rfloor>"
    with t(1) have "0 < len" by (intro pos [of "0.75"]) simp_all
    then have "real_of_int len * 0.75 < real_of_int len" by simp
    then show ?thesis unfolding e by (simp add: floor_less_iff)
  next
    assume e: "t = \<lfloor>real_of_int len * 0.5\<rfloor>"
    with t(1) have "0 < len" by (intro pos [of "0.5"]) simp_all
    then have "real_of_int len * 0.5 < real_of_int len" by simp
    then show ?thesis unfolding e by (simp add: floor_less_iff)
  qed
qed

lemma fold_region_body_skip:
  "(\<And>t. t \<in> set ts \<Longrightarrow> findZeroCrossing data t 2000 < 22050) \<Longrightarrow>
   fold (region_body data) ts st = st"
proof (induction ts arbitrary: st)
  case Nil
  then show ?case by simp
next
  case (Cons t ts)
  have "findZeroCrossing data t 2000 < 22050" by (rule Cons.prems) simp
  then have "region_body data t st = st" by (simp add: region_body_def Let_def)
  moreover have "fold (region_body data) ts st = st" by (rule Cons.IH) (simp add: Cons.prems)
  ultimately show ?case by simp
qed

subsection \<open>Silent input\<close>

lemma silence_no_crossing:
  "0 \<le> i \<Longrightarrow> i + 1 < int n \<Longrightarrow> \<not> is_zero_crossing (silence n) i"
  by (simp add: is_zero_crossing_def silence_def nat_less_iff)

lemma findZeroCrossing_loop_silence:
  "0 \<le> i \<Longrightarrow> endi \<le> int n - 1 \<Longrightarrow>
   findZeroCrossing_loop (silence n) i endi bestIndex minVal = bestIndex"
proof (induction "nat (endi - i)" arbitrary: i)
  case 0
  then show ?case by (subst findZeroCrossing_loop_unfold) simp
next
  case (Suc k)
  then have lt: "i < endi" by simp
  have "\<not> is_zero_crossing (silence n) i"
    using Suc.prems lt by (intro silence_no_crossing) auto
  moreover have "findZeroCrossing_loop (silence n) (i + 1) endi bestIndex minVal = bestIndex"
    using Suc by (intro Suc.hyps(1)) auto
  ultimately show ?case using lt by (subst findZeroCrossing_loop_unfold) simp
qed

lemma findZeroCrossing_silence: "findZeroCrossing (silence n) target windowSize = target"
  unfolding findZeroCrossing_def Let_def
  by (rule findZeroCrossing_loop_silence) (simp_all add: silence_def)

lemma calculateCorrelation_loop_silence:
  "0 \<le> i \<Longrightarrow> 0 \<le> idxA \<Longrightarrow> 0 \<le> idxB \<Longrightarrow> idxA + window < int n \<Longrightarrow> idxB + window < int n \<Longrightarrow>
   calculateCorrelation_loop (silence n) idxA idxB window i sumv = sumv"
proof (induction "nat (window - i)" arbitrary: i)
  case 0
  then show ?case by (subst calculateCorrelation_loop.simps) simp
next
  case (Suc k)
  then have lt: "i < window" by simp
  have a: "silence n ! nat (idxA + i) = 0" using Suc.prems lt by (simp add: silence_def nat_less_iff)
  have b: "silence n ! nat (idxB + i) = 0" using Suc.prems lt by (simp add: silence_def nat_less_iff)
  have "calculateCorrelation_loop (silence n) idxA idxB window (i + 1) sumv = sumv"
    using Suc by (intro Suc.hyps(1)) auto
  then show ?case using lt a b by (subst calculateCorrelation_loop.simps) simp
qed

lemma calculateCorrelation_silence:
  "calculateCorrelation (silence n) idxA idxB 500 =
     (if idxA < 0 \<or> idxB < 0 \<or> idxA + 500 \<ge> int n \<or> idxB + 500 \<ge> int n then 0 else 100)"
  by (simp add: calculateCorrelation_def Let_def calculateCorrelation_loop_silence)
     (simp add: silence_def)

lemma startScan_loop_silence_done:
  assumes "bestScore = (if validEnd + 500 < int n then 100 else 0)"
  shows "0 \<le> i \<Longrightarrow> 0 \<le> validEnd \<Longrightarrow> startScan_loop (silence n) validEnd i bestStart bestScore = (bestStart, bestScore)"
proof (induction "nat (maxStartIndex validEnd - i)" arbitrary: i rule: less_induct)
  case less
  show ?case
  proof (cases "i < maxStartIndex validEnd")
    case False
    then show ?thesis by (subst startScan_loop.simps) simp
  next
    case True
    have step: "10 \<le> searchStep validEnd" by (rule searchStep_ge)
    have "startScan_loop (silence n) validEnd (i + searchStep validEnd) bestStart bestScore = (bestStart, bestScore)"
      using True step less.prems by (intro less.hyps) auto
    moreover have "\<not> calculateCorrelation (silence n) i validEnd 500 > bestScore"
      using assms True less.prems by (auto simp: calculateCorrelation_silence maxStartIndex_def) 
    ultimately show ?thesis
      by (subst startScan_loop.simps) (simp add: Let_def findZeroCrossing_silence)
  qed
qed

lemma startScan_loop_silence:
  assumes "1000 < validEnd"
  shows "startScan_loop (silence n) validEnd 0 0 (- 1) = (0, if validEnd + 500 < int n then 100 else 0)"
proof -
  have step: "10 \<le> searchStep validEnd" by (rule searchStep_ge)
  have "startScan_loop (silence n) validEnd (0 + searchStep validEnd) 0 (if validEnd + 500 < int n then 100 else 0)
     = (0, if validEnd + 500 < int n then 100 else 0)"
    using assms step by (intro startScan_loop_silence_done) auto
  then show ?thesis using assms
    by (subst startScan_loop.simps)
       (auto simp: Let_def findZeroCrossing_silence calculateCorrelation_silence maxStartIndex_def)
qed

lemma region_body_silence:
  assumes "22050 \<le> t"
  shows "region_body (silence n) t (points, idCounter) =
     (if t + 500 < int n then
        (points @ [\<lparr>lp_id = idCounter, lp_start = 0, lp_end = t, lp_score = 100,
                     lp_name = ''Auto Loop '' @ string_of_nat (idCounter + 1)\<rparr>], idCounter + 1)
      else (points, idCounter))"
  using assms by (simp add: region_body_def Let_def findZeroCrossing_silence startScan_loop_silence)

lemma candidateEndRegions_2s: "candidateEndRegions 88200 = [88100, 66150, 44100]"
  by (simp add: candidateEndRegions_def)

lemma string_of_nat_2: "string_of_nat 2 = ''2''" "string_of_nat 3 = ''3''"
  by code_simp+

lemma string_of_nat_Suc:
  "string_of_nat (Suc (Suc 0)) = ''2''" "string_of_nat (Suc (Suc (Suc 0))) = ''3''"
  using string_of_nat_2 by (simp_all add: numeral_2_eq_2 numeral_3_eq_3)

lemma wf_silent_buffer: "wf_buffer (silent_buffer n rate)"
  by (simp add: wf_buffer_def silent_buffer_def silence_def)

lemma silent_2s_detected:
  "detectLoopPoints (silent_buffer 88200 44100) =
     Some [\<lparr>lp_id = 1, lp_start = 0, lp_end = 66150, lp_score = 100, lp_name = ''Auto Loop 2''\<rparr>,
           \<lparr>lp_id = 2, lp_start = 0, lp_end = 44100, lp_score = 100, lp_name = ''Auto Loop 3''\<rparr>]"
proof -
  have len: "length (silence 88200) = 88200" by (simp add: silence_def)
  have r1: "region_body (silence 88200) 88100 ([], 1) = ([], 1)"
    by (simp add: region_body_silence)
  have r2: "region_body (silence 88200) 66150 ([], 1) =
      ([\<lparr>lp_id = 1, lp_start = 0, lp_end = 66150, lp_score = 100, lp_name = ''Auto Loop 2''\<rparr>], 2)"
    by (simp add: region_body_silence string_of_nat_Suc string_of_nat_2)
  have r3: "region_body (silence 88200) 44100
      ([\<lparr>lp_id = 1, lp_start = 0, lp_end = 66150, lp_score = 100, lp_name = ''Auto Loop 2''\<rparr>], 2) =
      ([\<lparr>lp_id = 1, lp_start = 0, lp_end = 66150, lp_score = 100, lp_name = ''Auto Loop 2''\<rparr>,
        \<lparr>lp_id = 2, lp_start = 0, lp_end = 44100, lp_score = 100, lp_name = ''Auto Loop 3''\<rparr>], 3)"
    by (simp add: region_body_silence string_of_nat_Suc string_of_nat_2)
  show ?thesis
    using r1 r2 r3
    by (simp add: detectLoopPoints_def getChannelData_def silent_buffer_def len
          candidateEndRegions_2s)
qed

subsection \<open>Input with one sign change\<close>

lemma length_blip: "length blip = 88200"
  by (simp add: blip_def)

lemma blip_nth:
  "0 \<le> k \<Longrightarrow> k < 88200 \<Longrightarrow>
   blip ! nat k = (if k = 66000 then - 0.5 else if k = 66001 then 0.5 else 0)"
proof -
  assume k: "0 \<le> k" "k < 88200"
  consider "k < 66000" | "k = 66000" | "k = 66001" | "66002 \<le> k" by linarith
  then show ?thesis
  proof cases
    case 1
    with k have "nat k < 66000" by simp
    then show ?thesis using 1 by (simp add: blip_def nth_append)
  next
    case 2
    then have "nat k = 66000" by simp
    then show ?thesis using 2 by (simp add: blip_def nth_append)
  next
    case 3
    then have "nat k = 66001" by simp
    then show ?thesis using 3 by (simp add: blip_def nth_append)
  next
    case 4
    with k have n: "66002 \<le> nat k" "nat k < 88200" by simp_all
    then have "nat k - 66000 - 2 < 22198" by simp
    then show ?thesis using 4 n
      by (simp add: blip_def nth_append nth_Cons')
  qed
qed

lemma blip_crossing:
  "0 \<le> k \<Longrightarrow> k + 1 < 88200 \<Longrightarrow> is_zero_crossing blip k \<longleftrightarrow> k = 65999 \<or> k = 66000"
  by (auto simp: is_zero_crossing_def blip_nth)

lemma findZeroCrossing_loop_skip:
  "i \<le> j \<Longrightarrow> j \<le> endi \<Longrightarrow> (\<And>k. i \<le> k \<Longrightarrow> k < j \<Longrightarrow> \<not> is_zero_crossing data k) \<Longrightarrow>
   findZeroCrossing_loop data i endi bestIndex minVal = findZeroCrossing_loop data j endi bestIndex minVal"
proof (induction "nat (j - i)" arbitrary: i)
  case 0
  then show ?case by simp
next
  case (Suc n)
  then have lt: "i < j" "i < endi" by simp_all
  have "\<not> is_zero_crossing data i" using lt by (intro Suc.prems(3)) simp_all
  then have "findZeroCrossing_loop data i endi bestIndex minVal
      = findZeroCrossing_loop data (i + 1) endi bestIndex minVal"
    using lt by (subst findZeroCrossing_loop_unfold) simp
  also have "\<dots> = findZeroCrossing_loop data j endi bestIndex minVal"
    using Suc.hyps(2) lt Suc.prems(2) by (intro Suc.hyps(1) Suc.prems(3)) simp_all
  finally show ?case .
qed

lemma findZeroCrossing_loop_saturated:
  "minVal \<le> 0 \<Longrightarrow> findZeroCrossing_loop data i endi bestIndex minVal = bestIndex"
proof (induction "nat (endi - i)" arbitrary: i)
  case 0
  then show ?case by (subst findZeroCrossing_loop_unfold) simp
next
  case (Suc n)
  then have "findZeroCrossing_loop data (i + 1) endi bestIndex minVal = bestIndex"
    by (intro Suc.hyps(1)) simp_all
  moreover have "\<not> \<bar>data ! nat i\<bar> < minVal" using Suc.prems by simp
  ultimately show ?case by (subst findZeroCrossing_loop_unfold) simp
qed

lemma findZeroCrossing_no_crossing:
  assumes "\<And>k. max 0 (target - w) \<le> k \<Longrightarrow> k < min (int (length data) - 1) (target + w)
             \<Longrightarrow> \<not> is_zero_crossing data k"
  shows "findZeroCrossing data target w = target"
proof -
  have "\<not> window_has_crossing data target w"
    using assms by (auto simp: window_has_crossing_def)
  with findZeroCrossing_snapped [of data target w] have "findZeroCrossing data target w = target
      \<or> is_zero_crossing data (findZeroCrossing data target w) \<and>
        max 0 (target - w) \<le> findZeroCrossing data target w \<and>
        findZeroCrossing data target w < min (int (length data) - 1) (target + w)"
    by (auto simp: snapped_def)
  with assms show ?thesis by blast
qed

lemma findZeroCrossing_blip_75: "findZeroCrossing blip 66150 2000 = 65999"
proof -
  have v: "blip ! 65999 = 0" using blip_nth [of 65999] by simp
  have "findZeroCrossing blip 66150 2000 = findZeroCrossing_loop blip 64150 68150 66150 1"
    by (simp add: findZeroCrossing_def length_blip)
  also have "\<dots> = findZeroCrossing_loop blip 65999 68150 66150 1"
    by (rule findZeroCrossing_loop_skip) (simp_all add: blip_crossing)
  also have "\<dots> = findZeroCrossing_loop blip (65999 + 1) 68150 65999 \<bar>blip ! nat 65999\<bar>"
    by (subst findZeroCrossing_loop_unfold) (simp add: blip_crossing v)
  also have "\<dots> = 65999"
    by (rule findZeroCrossing_loop_saturated) (simp add: v)
  finally show ?thesis .
qed

lemma findZeroCrossing_blip_away:
  assumes "0 \<le> w" and "target + w \<le> 65999 \<or> 66001 \<le> target - w"
  shows "findZeroCrossing blip target w = target"
proof (rule findZeroCrossing_no_crossing)
  fix k
  assume k: "max 0 (target - w) \<le> k" "k < min (int (length blip) - 1) (target + w)"
  then have "0 \<le> k" "k + 1 < 88200" by (simp_all add: length_blip)
  moreover have "k \<noteq> 65999" "k \<noteq> 66000" using k assms by auto
  ultimately show "\<not> is_zero_crossing blip k" by (simp add: blip_crossing)
qed

lemma calculateCorrelation_loop_skip:
  "i \<le> j \<Longrightarrow> j \<le> window \<Longrightarrow>
   (\<And>k. i \<le> k \<Longrightarrow> k < j \<Longrightarrow> data ! nat (idxA + k) = data ! nat (idxB + k)) \<Longrightarrow>
   calculateCorrelation_loop data idxA idxB window i sumv
     = calculateCorrelation_loop data idxA idxB window j sumv"
proof (induction "nat (j - i)" arbitrary: i)
  case 0
  then show ?case by simp
next
  case (Suc n)
  then have lt: "i < j" "i < window" by simp_all
  have "data ! nat (idxA + i) = data ! nat (idxB + i)" using lt by (intro Suc.prems(3)) simp_all
  then have "calculateCorrelation_loop data idxA idxB window i sumv
      = calculateCorrelation_loop data idxA idxB window (i + 1) sumv"
    using lt by (subst calculateCorrelation_loop.simps) simp
  also have "\<dots> = calculateCorrelation_loop data idxA idxB window j sumv"
    using Suc.hyps(2) lt Suc.prems(2) by (intro Suc.hyps(1) Suc.prems(3)) simp_all
  finally show ?case .
qed

lemma calculateCorrelation_loop_end:
  "calculateCorrelation_loop data idxA idxB window window sumv = sumv"
  by (subst calculateCorrelation_loop.simps) simp

lemma calculateCorrelation_blip_75:
  assumes "0 \<le> a" and "a < 64999"
  shows "calculateCorrelation blip a 65999 500 = 498 / 5"
proof -
  have z: "blip ! nat (a + k) = 0" if "0 \<le> k" "k < 500" for k
    using that assms by (subst blip_nth) simp_all
  have e: "blip ! nat (65999 + k) = (if k = 1 then - 0.5 else if k = 2 then 0.5 else 0)"
    if "0 \<le> k" "k < 500" for k
    using that by (subst blip_nth) auto
  have t1: "\<bar>blip ! nat (a + 1) - blip ! nat (65999 + 1)\<bar> = 1 / 2"
    using z [of 1] e [of 1] by simp
  have t2: "\<bar>blip ! nat (a + 2) - blip ! nat (65999 + 2)\<bar> = 1 / 2"
    using z [of 2] e [of 2] by simp
  have "calculateCorrelation_loop blip a 65999 500 0 0
      = calculateCorrelation_loop blip a 65999 500 1 0"
    by (rule calculateCorrelation_loop_skip) (simp_all add: z e)
  also have "\<dots> = calculateCorrelation_loop blip a 65999 500 (1 + 1) (0 + \<bar>blip ! nat (a + 1) - blip ! nat (65999 + 1)\<bar>)"
    by (subst calculateCorrelation_loop.simps) simp
  also have "\<dots> = calculateCorrelation_loop blip a 65999 500 2 (1 / 2)"
    unfolding t1 by simp
  also have "\<dots> = calculateCorrelation_loop blip a 65999 500 (2 + 1) (1 / 2 + \<bar>blip ! nat (a + 2) - blip ! nat (65999 + 2)\<bar>)"
    by (subst calculateCorrelation_loop.simps) simp
  also have "\<dots> = calculateCorrelation_loop blip a 65999 500 3 1"
    unfolding t2 by simp
  also have "\<dots> = calculateCorrelation_loop blip a 65999 500 500 1"
    by (rule calculateCorrelation_loop_skip) (simp_all add: z e)
  also have "\<dots> = 1" by (rule calculateCorrelation_loop_end)
  finally have s: "calculateCorrelation_loop blip a 65999 500 0 0 = 1" .
  show ?thesis using assms by (simp add: calculateCorrelation_def length_blip s)
qed

lemma calculateCorrelation_blip_50:
  assumes "0 \<le> a" and "a < 43100"
  shows "calculateCorrelation blip a 44100 500 = 100"
proof -
  have z: "blip ! nat (a + k) = 0" if "0 \<le> k" "k < 500" for k
    using that assms by (subst blip_nth) simp_all
  have e: "blip ! nat (44100 + k) = 0" if "0 \<le> k" "k < 500" for k
    using that by (subst blip_nth) simp_all
  have "calculateCorrelation_loop blip a 44100 500 0 0
      = calculateCorrelation_loop blip a 44100 500 500 0"
    by (rule calculateCorrelation_loop_skip) (simp_all add: z e)
  also have "\<dots> = 0" by (rule calculateCorrelation_loop_end)
  finally have s: "calculateCorrelation_loop blip a 44100 500 0 0 = 0" .
  show ?thesis using assms by (simp add: calculateCorrelation_def length_blip s)
qed

lemma startScan_loop_constant:
  assumes "\<And>j. 0 \<le> j \<Longrightarrow> j < maxStartIndex validEnd \<Longrightarrow>
             findZeroCrossing data j 100 = j \<and> calculateCorrelation data j validEnd 500 = c"
  shows "0 \<le> i \<Longrightarrow> startScan_loop data validEnd i bestStart c = (bestStart, c)"
proof (induction "nat (maxStartIndex validEnd - i)" arbitrary: i rule: less_induct)
  case less
  show ?case
  proof (cases "i < maxStartIndex validEnd")
    case False
    then show ?thesis by (subst startScan_loop.simps) simp
  next
    case True
    have step: "10 \<le> searchStep validEnd" by (rule searchStep_ge)
    have "startScan_loop data validEnd (i + searchStep validEnd) bestStart c = (bestStart, c)"
      using True step less.prems by (intro less.hyps) auto
    then show ?thesis
      using assms [OF less.prems True] True
      by (subst startScan_loop.simps) (simp add: Let_def)
  qed
qed

lemma startScan_loop_constant_first:
  assumes "\<And>j. 0 \<le> j \<Longrightarrow> j < maxStartIndex validEnd \<Longrightarrow>
             findZeroCrossing data j 100 = j \<and> calculateCorrelation data j validEnd 500 = c"
    and "1000 < validEnd" and "- 1 < c"
  shows "startScan_loop data validEnd 0 0 (- 1) = (0, c)"
proof -
  have step: "10 \<le> searchStep validEnd" by (rule searchStep_ge)
  have "startScan_loop data validEnd (0 + searchStep validEnd) 0 c = (0, c)"
    using step by (intro startScan_loop_constant assms(1)) simp_all
  moreover have "findZeroCrossing data 0 100 = 0 \<and> calculateCorrelation data 0 validEnd 500 = c"
    using assms(2) by (intro assms(1)) (simp_all add: maxStartIndex_def)
  ultimately show ?thesis
    using assms(2,3) by (subst startScan_loop.simps) (simp add: Let_def maxStartIndex_def)
qed

lemma region_body_window_outside:
  assumes "int (length data) \<le> findZeroCrossing data t 2000 + 500"
  shows "region_body data t st = st"
proof -
  let ?e = "findZeroCrossing data t 2000"
  let ?r = "startScan_loop data ?e 0 0 (- 1)"
  have "?r = (fst ?r, snd ?r)" by simp
  from startScan_loop_result [OF this]
  have "snd ?r = - 1 \<or> snd ?r = calculateCorrelation data (fst ?r) ?e 500" by auto
  moreover have "calculateCorrelation data (fst ?r) ?e 500 = 0"
    using assms by (simp add: calculateCorrelation_def)
  ultimately have "\<not> 60 < snd ?r" by auto
  then show ?thesis by (simp add: region_body_def Let_def)
qed

lemma wf_blip_2s: "wf_buffer blip_2s"
  by (simp add: wf_buffer_def blip_2s_def length_blip)

lemma round_498_5: "round (498 / 5 :: real) = 100"
  by (simp add: round_def floor_eq_iff)

lemma region_body_blip_100: "region_body blip 88100 st = st"
proof (rule region_body_window_outside)
  have "findZeroCrossing blip 88100 2000 = 88100"
    by (rule findZeroCrossing_blip_away) simp_all
  then show "int (length blip) \<le> findZeroCrossing blip 88100 2000 + 500"
    by (simp add: length_blip)
qed

lemma region_body_blip_75:
  "region_body blip 66150 (points, idCounter) =
     (points @ [\<lparr>lp_id = idCounter, lp_start = 0, lp_end = 65999, lp_score = 100,
                  lp_name = ''Auto Loop '' @ string_of_nat (idCounter + 1)\<rparr>], idCounter + 1)"
proof -
  have "startScan_loop blip 65999 0 0 (- 1) = (0, 498 / 5)"
  proof (rule startScan_loop_constant_first)
    fix j :: int
    assume j: "0 \<le> j" "j < maxStartIndex 65999"
    then have "findZeroCrossing blip j 100 = j"
      by (intro findZeroCrossing_blip_away) (simp_all add: maxStartIndex_def)
    moreover have "calculateCorrelation blip j 65999 500 = 498 / 5"
      using j by (intro calculateCorrelation_blip_75) (simp_all add: maxStartIndex_def)
    ultimately show "findZeroCrossing blip j 100 = j \<and> calculateCorrelation blip j 65999 500 = 498 / 5"
      by simp
  qed simp_all
  then show ?thesis
    by (simp add: region_body_def Let_def findZeroCrossing_blip_75 round_498_5)
qed

lemma region_body_blip_50:
  "region_body blip 44100 (points, idCounter) =
     (points @ [\<lparr>lp_id = idCounter, lp_start = 0, lp_end = 44100, lp_score = 100,
                  lp_name = ''Auto Loop '' @ string_of_nat (idCounter + 1)\<rparr>], idCounter + 1)"
proof -
  have e: "findZeroCrossing blip 44100 2000 = 44100"
    by (rule findZeroCrossing_blip_away) simp_all
  have "startScan_loop blip 44100 0 0 (- 1) = (0, 100)"
  proof (rule startScan_loop_constant_first)
    fix j :: int
    assume j: "0 \<le> j" "j < maxStartIndex 44100"
    then have "findZeroCrossing blip j 100 = j"
      by (intro findZeroCrossing_blip_away) (simp_all add: maxStartIndex_def)
    moreover have "calculateCorrelation blip j 44100 500 = 100"
      using j by (intro calculateCorrelation_blip_50) (simp_all add: maxStartIndex_def)
    ultimately show "findZeroCrossing blip j 100 = j \<and> calculateCorrelation blip j 44100 500 = 100"
      by simp
  qed simp_all
  then show ?thesis
    by (simp add: region_body_def Let_def e)
qed

lemma blip_2s_detected:
  "detectLoopPoints blip_2s = Some [loop_blip, loop_50]"
proof -
  have r2: "region_body blip 66150 ([], 1) = ([loop_blip], 2)"
    by (simp add: region_body_blip_75 loop_blip_def string_of_nat_Suc string_of_nat_2)
  have r3: "region_body blip 44100 ([loop_blip], 2) = ([loop_blip, loop_50], 3)"
    by (simp add: region_body_blip_50 loop_50_def string_of_nat_Suc string_of_nat_2)
  have s: "lp_score loop_50 \<le> lp_score loop_blip"
    by (simp add: loop_blip_def loop_50_def)
  show ?thesis
    using r2 r3 s
    by (simp add: detectLoopPoints_def getChannelData_def blip_2s_def length_blip
          candidateEndRegions_2s region_body_blip_100)
qed

section \<open>Properties of the WAV export\<close>

subsection \<open>Sequential writes into the zero-filled buffer\<close>

lemma writeString_append:
  "writeString (pre @ replicate k 0) (length pre) str =
     (if length str \<le> k then Some (pre @ ascii str @ replicate (k - length str) 0) else None)"
proof (induction str arbitrary: pre k)
  case Nil
  then show ?case by (simp add: ascii_def)
next
  case (Cons c cs)
  show ?case
  proof (cases k)
    case 0
    then show ?thesis by (simp add: setUint8_def)
  next
    case (Suc m)
    have upd: "(pre @ replicate (Suc m) 0)[length pre := word_of_int (of_char c)]
               = (pre @ [word_of_int (of_char c)]) @ replicate m (0 :: byte)"
      by (simp add: list_update_append)
    have "writeString ((pre @ [word_of_int (of_char c)]) @ replicate m 0)
            (length (pre @ [word_of_int (of_char c)])) cs =
          (if length cs \<le> m then
             Some ((pre @ [word_of_int (of_char c)]) @ ascii cs @ replicate (m - length cs) 0)
           else None)"
      by (rule Cons.IH)
    then show ?thesis using Suc upd by (simp add: setUint8_def ascii_def)
  qed
qed

lemma put_string_wstate:
  "length str = 4 \<Longrightarrow>
   put_string str (wstate pre k) =
     (if 4 \<le> k then Some (wstate (pre @ ascii str) (k - 4)) else None)"
  by (simp add: put_string_def wstate_def writeString_append ascii_def)

lemma update2_append:
  assumes "2 \<le> k"
  shows "(pre @ replicate k (0 :: byte))[length pre := a, length pre + 1 := b]
           = pre @ [a, b] @ replicate (k - 2) 0"
proof -
  from assms have "k = Suc (Suc (k - 2))" by simp
  then have "replicate k (0 :: byte) = 0 # 0 # replicate (k - 2) 0"
    by (metis replicate_Suc)
  then show ?thesis by (simp add: list_update_append)
qed

lemma update4_append:
  assumes "4 \<le> k"
  shows "(pre @ replicate k (0 :: byte))[length pre := a, length pre + 1 := b,
            length pre + 2 := c, length pre + 3 := d]
           = pre @ [a, b, c, d] @ replicate (k - 4) 0"
proof -
  from assms have "k = Suc (Suc (Suc (Suc (k - 4))))" by simp
  then have "replicate k (0 :: byte) = 0 # 0 # 0 # 0 # replicate (k - 4) 0"
    by (metis replicate_Suc)
  then show ?thesis by (simp add: list_update_append numeral_2_eq_2 numeral_3_eq_3)
qed

lemma put_u16_wstate:
  "put_u16 v (wstate pre k) =
     (if 2 \<le> k then Some (wstate (pre @ le16 (word_of_int v)) (k - 2)) else None)"
  by (simp add: put_u16_def wstate_def setUint16_def Let_def le16_def update2_append [simplified])

lemma put_u32_wstate:
  "put_u32 v (wstate pre k) =
     (if 4 \<le> k then Some (wstate (pre @ le32 (word_of_int v)) (k - 4)) else None)"
  by (simp add: put_u32_def wstate_def setUint32_def Let_def le32_def update4_append [simplified])

lemma put_pcm_wstate:
  "n = length bs \<Longrightarrow>
   put_pcm bs n (wstate pre k) =
     (if n \<le> k then Some (wstate (pre @ bs) (k - n)) else None)"
  by (simp add: put_pcm_def wstate_def set_bytes_def)

subsection \<open>The interleaving loops\<close>

lemma channel_loop_spec:
  assumes "length data = length_buf b * numberOfChannels b" and "i < length_buf b"
    and "channel \<le> numberOfChannels b"
  shows "\<exists>data'. channel_loop b i channel data = Some data' \<and> length data' = length data \<and>
      (\<forall>k<length data. data' ! k =
         (if i * numberOfChannels b + channel \<le> k \<and> k < i * numberOfChannels b + numberOfChannels b
          then pcm_value b (k mod numberOfChannels b) (k div numberOfChannels b) else data ! k))"
  using assms
proof (induction "numberOfChannels b - channel" arbitrary: channel data)
  case 0
  then have "channel = numberOfChannels b" by simp
  then show ?case by (subst channel_loop.simps) auto
next
  case (Suc m)
  let ?nc = "numberOfChannels b"
  let ?v = "pcm_value b channel i"
  let ?data1 = "data[i * ?nc + channel := ?v]"
  from Suc have lt: "channel < ?nc" by simp
  have idx: "i * ?nc + channel < length data"
  proof -
    have "i * ?nc + channel < i * ?nc + ?nc" using lt by simp
    also have "\<dots> = Suc i * ?nc" by simp
    also have "\<dots> \<le> length_buf b * ?nc" using Suc.prems(2) by (intro mult_le_mono1) simp
    finally show ?thesis using Suc.prems(1) by simp
  qed
  have "\<exists>data'. channel_loop b i (channel + 1) ?data1 = Some data' \<and> length data' = length ?data1 \<and>
      (\<forall>k<length ?data1. data' ! k =
         (if i * ?nc + (channel + 1) \<le> k \<and> k < i * ?nc + ?nc
          then pcm_value b (k mod ?nc) (k div ?nc) else ?data1 ! k))"
    using Suc.hyps(2) Suc.prems lt by (intro Suc.hyps(1)) auto
  then obtain data' where d: "channel_loop b i (channel + 1) ?data1 = Some data'"
      "length data' = length data"
      "\<And>k. k < length data \<Longrightarrow> data' ! k =
         (if i * ?nc + (channel + 1) \<le> k \<and> k < i * ?nc + ?nc
          then pcm_value b (k mod ?nc) (k div ?nc) else ?data1 ! k)"
    by auto
  have step: "channel_loop b i channel data = channel_loop b i (channel + 1) ?data1"
    using lt by (subst channel_loop.simps) (simp add: getChannelData_def pcm_value_def Let_def)
  have "data' ! k =
         (if i * ?nc + channel \<le> k \<and> k < i * ?nc + ?nc
          then pcm_value b (k mod ?nc) (k div ?nc) else data ! k)" if k: "k < length data" for k
  proof (cases "k = i * ?nc + channel")
    case True
    then have "data' ! k = ?v" using d(3) [OF k] idx by simp
    moreover have "k mod ?nc = channel" "k div ?nc = i" using True lt by simp_all
    ultimately show ?thesis using True lt by simp
  next
    case False
    then show ?thesis using d(3) [OF k] by auto
  qed
  with d step show ?case by simp
qed

lemma frame_loop_spec:
  assumes "length data = length_buf b * numberOfChannels b" and "i \<le> length_buf b"
  shows "\<exists>data'. frame_loop b i data = Some data' \<and> length data' = length data \<and>
      (\<forall>k<length data. data' ! k =
         (if i * numberOfChannels b \<le> k
          then pcm_value b (k mod numberOfChannels b) (k div numberOfChannels b) else data ! k))"
  using assms
proof (induction "length_buf b - i" arbitrary: i data)
  case 0
  then have i: "i = length_buf b" by simp
  then have "frame_loop b i data = Some data" by (subst frame_loop.simps) simp
  then show ?case using i "0.prems" by simp
next
  case (Suc m)
  let ?nc = "numberOfChannels b"
  from Suc have lt: "i < length_buf b" by simp
  from channel_loop_spec [OF Suc.prems(1) lt, of 0]
  obtain data1 where d1: "channel_loop b i 0 data = Some data1" "length data1 = length data"
     "\<And>k. k < length data \<Longrightarrow> data1 ! k =
         (if i * ?nc \<le> k \<and> k < i * ?nc + ?nc
          then pcm_value b (k mod ?nc) (k div ?nc) else data ! k)"
    by auto
  have "\<exists>data'. frame_loop b (i + 1) data1 = Some data' \<and> length data' = length data1 \<and>
      (\<forall>k<length data1. data' ! k =
         (if (i + 1) * ?nc \<le> k then pcm_value b (k mod ?nc) (k div ?nc) else data1 ! k))"
    using Suc.hyps(2) Suc.prems lt d1(2) by (intro Suc.hyps(1)) auto
  then obtain data' where d: "frame_loop b (i + 1) data1 = Some data'"
      "length data' = length data"
      "\<And>k. k < length data \<Longrightarrow> data' ! k =
         (if (i + 1) * ?nc \<le> k then pcm_value b (k mod ?nc) (k div ?nc) else data1 ! k)"
    using d1(2) by auto
  have step: "frame_loop b i data = frame_loop b (i + 1) data1"
    using lt d1(1) by (subst frame_loop.simps) simp
  have "data' ! k = (if i * ?nc \<le> k then pcm_value b (k mod ?nc) (k div ?nc) else data ! k)"
    if k: "k < length data" for k
    using d(3) [OF k] d1(3) [OF k] by auto
  with d step show ?case by simp
qed

lemma frame_loop_interleaved:
  "frame_loop b 0 (replicate (length_buf b * numberOfChannels b) 0) = Some (interleaved b)"
proof -
  let ?n = "length_buf b * numberOfChannels b"
  from frame_loop_spec [of "replicate ?n 0" b 0]
  obtain data' where d: "frame_loop b 0 (replicate ?n 0) = Some data'" "length data' = ?n"
    "\<And>k. k < ?n \<Longrightarrow> data' ! k = pcm_value b (k mod numberOfChannels b) (k div numberOfChannels b)"
    by auto
  have "data' = interleaved b"
    by (rule nth_equalityI) (simp_all add: interleaved_def d)
  with d(1) show ?thesis by simp
qed

subsection \<open>The file as a concatenation\<close>

lemma length_le16 [simp]: "length (le16 w) = 2"
  by (simp add: le16_def)

lemma length_le32 [simp]: "length (le32 w) = 4"
  by (simp add: le32_def)

lemma length_ascii [simp]: "length (ascii str) = length str"
  by (simp add: ascii_def)

lemma length_concat_le16 [simp]: "length (concat (map le16 ws)) = 2 * length ws"
  by (induction ws) simp_all

lemma length_interleaved [simp]:
  "length (interleaved b) = length_buf b * numberOfChannels b"
  by (simp add: interleaved_def)

lemma put_smpl_wstate:
  "put_smpl 60 rate lp (wstate pre (68 + k)) = Some (wstate (pre @ smpl_chunk rate lp) k)"
  by (simp add: put_smpl_def put_string_wstate put_u32_wstate smpl_chunk_def)

lemma put_smpl_wstate_68:
  "put_smpl 60 rate lp (wstate pre 68) = Some (wstate (pre @ smpl_chunk rate lp) 0)"
  using put_smpl_wstate [of rate lp pre 0] by simp

lemma fst_wstate_0: "fst (wstate pre 0) = pre"
  by (simp add: wstate_def)

lemma wstate_init: "(replicate k 0, 0) = wstate [] k"
  by (simp add: wstate_def)

lemma exportWavWithSmpl_None:
  "exportWavWithSmpl b None = Some (wav_image b None)"
  by (simp add: exportWavWithSmpl_def Let_def frame_loop_interleaved wstate_init
      put_string_wstate put_u32_wstate put_u16_wstate put_pcm_wstate fst_wstate_0
      wav_image_def wav_header_def)

lemma exportWavWithSmpl_Some:
  "exportWavWithSmpl b (Some lp) = Some (wav_image b (Some lp))"
  by (simp add: exportWavWithSmpl_def Let_def frame_loop_interleaved wstate_init
      put_string_wstate put_u32_wstate put_u16_wstate put_pcm_wstate put_smpl_wstate_68 fst_wstate_0
      wav_image_def wav_header_def)

lemma exportWavWithSmpl_image:
  "exportWavWithSmpl b loopPoint = Some (wav_image b loopPoint)"
  by (cases loopPoint) (simp_all add: exportWavWithSmpl_None exportWavWithSmpl_Some)

lemma length_wav_header: "length (wav_header fileSize numChannels rate dataChunkSize) = 44"
  by (simp add: wav_header_def)

lemma length_smpl_chunk: "length (smpl_chunk rate lp) = 68"
  by (simp add: smpl_chunk_def)

lemma length_wav_image:
  "length (wav_image b lp) =
     44 + length_buf b * numberOfChannels b * 2 + (if lp \<noteq> None then 68 else 0)"
  by (cases lp) (simp_all add: wav_image_def length_wav_header length_smpl_chunk)

subsection \<open>Reading fields back\<close>

lemma word16_of_le16:
  "word16_of (ucast w) (ucast (drop_bit 8 w)) = w" for w :: "16 word"
  unfolding word16_of_def
  by (rule bit_word_eqI) (auto simp: bit_simps)

lemma word32_of_le32:
  "word32_of (ucast w) (ucast (drop_bit 8 w)) (ucast (drop_bit 16 w)) (ucast (drop_bit 24 w)) = w"
  for w :: "32 word"
  unfolding word32_of_def
proof (rule bit_word_eqI)
  fix n
  assume n: "n < LENGTH(32)"
  consider "n < 8" | "8 \<le> n" "n < 16" | "16 \<le> n" "n < 24" | "24 \<le> n"
    by linarith
  then show "bit ((ucast (ucast w :: byte) :: 32 word) OR push_bit 8 (ucast (ucast (drop_bit 8 w) :: byte))
                OR push_bit 16 (ucast (ucast (drop_bit 16 w) :: byte))
                OR push_bit 24 (ucast (ucast (drop_bit 24 w) :: byte))) n = bit w n"
    using n by cases (auto simp: bit_simps)
qed

lemma getUint32_append:
  "length pre = off \<Longrightarrow> getUint32 (pre @ le32 w @ rest) off = Some (unat w)"
  by (simp add: getUint32_def nth_append le32_def word32_of_le32)

lemma getUint16_append:
  "length pre = off \<Longrightarrow> getUint16 (pre @ le16 w @ rest) off = Some (unat w)"
  by (simp add: getUint16_def nth_append le16_def word16_of_le16)

lemma decode_pcm_le16: "decode_pcm (concat (map le16 ws)) = map sint ws"
  by (induction ws) (simp_all add: le16_def word16_of_le16)

lemma unat_word32_of_nat: "n < 4294967296 \<Longrightarrow> unat (word_of_int (int n) :: 32 word) = n"
  by (simp add: unat_of_nat)

lemma unat_word16_of_nat: "n < 65536 \<Longrightarrow> unat (word_of_int (int n) :: 16 word) = n"
  by (simp add: unat_of_nat)

lemma unat_word32_of_int: "unat (word_of_int k :: 32 word) = nat (k mod 4294967296)"
  by (simp add: unsigned_of_int take_bit_eq_mod)

lemma wav_header_tags:
  "take 4 (wav_header fs nc r ds @ rest) = ascii ''RIFF''"
  "take 4 (drop 8 (wav_header fs nc r ds @ rest)) = ascii ''WAVE''"
  "take 4 (drop 12 (wav_header fs nc r ds @ rest)) = ascii ''fmt ''"
  "take 4 (drop 36 (wav_header fs nc r ds @ rest)) = ascii ''data''"
  by (simp_all add: wav_header_def ascii_def le32_def le16_def)

lemma wav_header_constants:
  "getUint32 (wav_header fs nc r ds @ rest) 16 = Some 16"
  "getUint16 (wav_header fs nc r ds @ rest) 20 = Some 1"
  "getUint16 (wav_header fs nc r ds @ rest) 34 = Some 16"
  by (simp_all add: wav_header_def ascii_def le32_def le16_def getUint32_def getUint16_def
        word32_of_def word16_of_def)

lemma wav_header_words:
  "getUint32 (wav_header fs nc r ds @ rest) 4 = Some (unat (word_of_int (int fs) :: 32 word))"
  "getUint16 (wav_header fs nc r ds @ rest) 22 = Some (unat (word_of_int (int nc) :: 16 word))"
  "getUint32 (wav_header fs nc r ds @ rest) 24 = Some (unat (word_of_int (int r) :: 32 word))"
  "getUint32 (wav_header fs nc r ds @ rest) 40 = Some (unat (word_of_int (int ds) :: 32 word))"
  by (simp_all add: wav_header_def ascii_def le32_def le16_def getUint32_def getUint16_def
        word32_of_le32 word16_of_le16)

lemma wav_header_fields:
  "fs < 4294967296 \<Longrightarrow> getUint32 (wav_header fs nc r ds @ rest) 4 = Some fs"
  "nc < 65536 \<Longrightarrow> getUint16 (wav_header fs nc r ds @ rest) 22 = Some nc"
  "r < 4294967296 \<Longrightarrow> getUint32 (wav_header fs nc r ds @ rest) 24 = Some r"
  "ds < 4294967296 \<Longrightarrow> getUint32 (wav_header fs nc r ds @ rest) 40 = Some ds"
  by (simp_all only: wav_header_words unat_word32_of_nat unat_word16_of_nat)

lemma parse_wav_header_pcm:
  assumes "nc < 65536" and "r < 4294967296" and "ds < 4294967296" and "length pcm = ds"
  shows "parse_wav (wav_header fs nc r ds @ pcm) =
           Some \<lparr>wav_channels = nc, wav_rate = r, wav_samples = decode_pcm pcm\<rparr>"
proof -
  let ?bs = "wav_header fs nc r ds @ pcm"
  have len: "length ?bs = 44 + ds" using assms(4) by (simp add: length_wav_header)
  have dr: "take ds (drop 44 ?bs) = pcm" using assms(4) by (simp add: length_wav_header)
  show ?thesis
    using assms
    by (simp add: parse_wav_def wav_header_constants wav_header_fields wav_header_tags
          wav_header_tags [where rest = "[]", simplified] length_wav_header)
qed

lemma parse_wav_image:
  assumes "numberOfChannels b < 65536" and "sampleRate b < 4294967296"
    and "length_buf b * numberOfChannels b * 2 < 4294967296"
  shows "parse_wav (wav_image b None) =
           Some \<lparr>wav_channels = numberOfChannels b, wav_rate = sampleRate b,
                  wav_samples = map sint (interleaved b)\<rparr>"
proof -
  have "wav_image b None =
          wav_header (4 + (8 + 16) + (8 + length_buf b * numberOfChannels b * 2))
            (numberOfChannels b) (sampleRate b) (length_buf b * numberOfChannels b * 2)
          @ concat (map le16 (interleaved b))"
    by (simp add: wav_image_def)
  moreover have "length (concat (map le16 (interleaved b))) = length_buf b * numberOfChannels b * 2"
    by simp
  ultimately show ?thesis
    using assms by (simp only: parse_wav_header_pcm decode_pcm_le16)
qed

lemma getUint32_skip_add:
  "getUint32 (xs @ ys) (length xs + k) = getUint32 ys k"
  by (simp add: getUint32_def nth_append add.assoc)

lemma getUint32_skip:
  "length xs \<le> off \<Longrightarrow> getUint32 (xs @ ys) off = getUint32 ys (off - length xs)"
  using getUint32_skip_add [of xs ys "off - length xs"] by simp

lemma getUint32_le32_0: "getUint32 (le32 w @ rest) 0 = Some (unat w)"
  using getUint32_append [of "[]" 0 w rest] by simp

lemma smpl_tag:
  "take 4 (drop (smplOffset b) (wav_image b (Some lp))) = ascii ''smpl''"
  by (simp add: wav_image_def smplOffset_def length_wav_header smpl_chunk_def)

lemma loop_fields:
  "getUint32 (wav_image b (Some lp)) (smplOffset b + 52) = Some (unat (word_of_int (lp_start lp) :: 32 word))"
  "getUint32 (wav_image b (Some lp)) (smplOffset b + 56) = Some (unat (word_of_int (lp_end lp) :: 32 word))"
  by (simp_all add: wav_image_def smplOffset_def smpl_chunk_def getUint32_skip length_wav_header
        getUint32_le32_0)

subsection \<open>Quantisation\<close>

lemma pcm_value_scaled:
  "i < length (channelData b ! channel) \<Longrightarrow>
   pcm_value b channel i = toInt16 (scaled (channelData b ! channel ! i))"
  by (simp add: pcm_value_def scaled_def Let_def)

lemma js_trunc_scaled_range: "- 32768 \<le> js_trunc (scaled x) \<and> js_trunc (scaled x) < 32768"
proof -
  let ?s = "max (- 1) (min 1 x)"
  have s: "- 1 \<le> ?s" "?s \<le> 1" by simp_all
  show ?thesis
  proof (cases "?s < 0")
    case True
    then have sc: "scaled x = ?s * 32768" by (simp add: scaled_def Let_def)
    have "- 32768 \<le> ?s * 32768" "?s * 32768 < 0" using s True by simp_all
    then have "- 32768 \<le> \<lceil>?s * 32768\<rceil>" "\<lceil>?s * 32768\<rceil> \<le> 0"
      by (simp_all add: le_ceiling_iff ceiling_le_iff)
    then show ?thesis using True sc \<open>?s * 32768 < 0\<close> by (simp add: js_trunc_def)
  next
    case False
    then have sc: "scaled x = ?s * 32767" by (simp add: scaled_def Let_def)
    have "0 \<le> ?s * 32767" "?s * 32767 \<le> 32767" using s False by simp_all
    then have "0 \<le> \<lfloor>?s * 32767\<rfloor>" "\<lfloor>?s * 32767\<rfloor> \<le> 32767"
      by (simp_all add: le_floor_iff floor_le_iff)
    then show ?thesis using False sc \<open>0 \<le> ?s * 32767\<close> by (simp add: js_trunc_def)
  qed
qed

lemma sint_toInt16_scaled: "sint (toInt16 (scaled x)) = js_trunc (scaled x)"
  using js_trunc_scaled_range [of x]
  by (simp add: toInt16_def signed_of_int signed_take_bit_int_eq_self)

lemma dequantize_error:
  assumes "\<bar>x\<bar> \<le> 1"
  shows "\<bar>dequantize (js_trunc (scaled x)) - x\<bar> < 1 / 32767"
proof -
  from assms have clamp: "max (- 1) (min 1 x) = x" by simp
  show ?thesis
  proof (cases "x < 0")
    case True
    then have sc: "scaled x = x * 32768" using clamp by (simp add: scaled_def Let_def)
    let ?q = "\<lceil>x * 32768\<rceil>"
    have q: "js_trunc (scaled x) = ?q" using True sc by (simp add: js_trunc_def)
    have up: "x * 32768 \<le> real_of_int ?q" by (rule le_of_int_ceiling)
    have lo: "real_of_int ?q < x * 32768 + 1" using ceiling_correct [of "x * 32768"] by linarith
    have q0: "?q \<le> 0" using True by (simp add: ceiling_le_iff)
    have a: "x \<le> real_of_int ?q / 32768" using up by (simp add: field_simps)
    have b: "real_of_int ?q / 32768 < x + 1 / 32768" using lo by (simp add: field_simps)
    show ?thesis
    proof (cases "?q < 0")
      case True
      then have "dequantize ?q = real_of_int ?q / 32768" by (simp add: dequantize_def)
      with a b show ?thesis unfolding q by linarith
    next
      case False
      with q0 have z: "?q = 0" by linarith
      then have d0: "dequantize ?q = 0" by (simp add: dequantize_def)
      have "0 < x + 1 / 32768" using b unfolding z by simp
      with d0 \<open>x < 0\<close> show ?thesis unfolding q by linarith
    qed
  next
    case False
    then have sc: "scaled x = x * 32767" using clamp by (simp add: scaled_def Let_def)
    let ?q = "\<lfloor>x * 32767\<rfloor>"
    have q: "js_trunc (scaled x) = ?q" using False sc by (simp add: js_trunc_def)
    have up: "real_of_int ?q \<le> x * 32767" by (rule of_int_floor_le)
    have lo: "x * 32767 < real_of_int ?q + 1" using floor_correct [of "x * 32767"] by linarith
    have q0: "0 \<le> ?q" using False by (simp add: le_floor_iff)
    then have d: "dequantize ?q = real_of_int ?q / 32767" by (simp add: dequantize_def)
    have a: "real_of_int ?q / 32767 \<le> x" using up by (simp add: field_simps)
    have b: "x < real_of_int ?q / 32767 + 1 / 32767" using lo by (simp add: field_simps)
    from a b d show ?thesis unfolding q by linarith
  qed
qed

lemma nth_interleaved:
  assumes "wf_buffer b" and "i < length_buf b" and "c < numberOfChannels b"
  shows "interleaved b ! (i * numberOfChannels b + c) = toInt16 (scaled (channelData b ! c ! i))"
proof -
  let ?nc = "numberOfChannels b"
  have "i * ?nc + c < i * ?nc + ?nc" using assms(3) by simp
  also have "\<dots> = Suc i * ?nc" by simp
  also have "\<dots> \<le> length_buf b * ?nc" using assms(2) by (intro mult_le_mono1) simp
  finally have k: "i * ?nc + c < length_buf b * ?nc" .
  have "channelData b ! c \<in> set (channelData b)" using assms(1,3) by (simp add: wf_buffer_def)
  then have len: "length (channelData b ! c) = length_buf b"
    using assms(1) by (simp add: wf_buffer_def list_all_iff)
  have "interleaved b ! (i * ?nc + c) = pcm_value b ((i * ?nc + c) mod ?nc) ((i * ?nc + c) div ?nc)"
    using k by (simp add: interleaved_def)
  also have "\<dots> = pcm_value b c i" using assms(3) by simp
  also have "\<dots> = toInt16 (scaled (channelData b ! c ! i))"
    using len assms(2) by (simp add: pcm_value_scaled)
  finally show ?thesis .
qed

lemma interleaved_one_frame:
  "interleaved \<lparr>numberOfChannels = 1, sampleRate = rate, length_buf = 1, channelData = [[1]]\<rparr>
     = [32767]"
  by (simp add: interleaved_def pcm_value_def toInt16_def js_trunc_def)

lemma le16_7FFF: "le16 32767 = [0xFF, 0x7F]"
  by (simp add: le16_def)

section \<open>The claims\<close>

subsection \<open>Loop detection\<close>

text \<open>
  C1 (as amended). For the 2-second, 44100 Hz, mono buffer of pure silence no sample pair
  changes sign, so every probe is snapped to itself: the three end probes stay at 88100,
  66150 and 44100. A flat 500-sample window gives difference 0 and score 100 wherever both
  windows lie inside the buffer, which is the case for the probes at 66150 and 44100; the
  end window of the probe at 88100 = frameCount - 100 runs past the buffer, its score is 0
  for every start, and that region yields no candidate. The run returns exactly the two
  candidates (0, 66150) and (0, 44100), both with score 100.
\<close>

theorem detect_silent_2s_result:
  "findZeroCrossing (silence 88200) 88100 2000 = 88100 \<and>
   findZeroCrossing (silence 88200) 66150 2000 = 66150 \<and>
   findZeroCrossing (silence 88200) 44100 2000 = 44100 \<and>
   calculateCorrelation (silence 88200) 0 66150 500 = 100 \<and>
   calculateCorrelation (silence 88200) 0 44100 500 = 100 \<and>
   calculateCorrelation (silence 88200) s 88100 500 = 0 \<and>
   detectLoopPoints silent_2s = Some [loop_75, loop_50]"
  using silent_2s_detected
  by (simp add: findZeroCrossing_silence calculateCorrelation_silence silent_2s_def
        loop_75_def loop_50_def)

text \<open>
  C1 as stated fails: on the silent 2-second buffer no returned candidate ends within the
  snap window of the probe at frameCount - 100 (both ends are below 88200 - 100 - 2000),
  because the score of that end region is 0.
\<close>

theorem detect_silent_2s_top_region_counterexample:
  "detectLoopPoints silent_2s = Some [loop_75, loop_50] \<and>
   lp_end loop_75 < 88200 - 100 - 2000 \<and> lp_end loop_50 < 88200 - 100 - 2000 \<and>
   snd (startScan_loop (silence 88200) (findZeroCrossing (silence 88200) (88200 - 100) 2000)
          0 0 (- 1)) = 0"
  using silent_2s_detected
  by (simp add: findZeroCrossing_silence startScan_loop_silence silent_2s_def
        loop_75_def loop_50_def)

text \<open>
  C2 (as amended). For every candidate returned by detectLoopPoints, the end offset is what
  findZeroCrossing returns for one of the probed end positions with window 2000, and the
  start offset is what it returns with window 100 for a probed start position (a multiple
  of the search step below end - 1000). Such a value is a sign change between that sample
  and the next, with sample magnitude below 1, inside the window around the probe; when
  the window holds no such sign change it is the probed position itself.
\<close>

theorem detect_offsets_snapped:
  assumes "wf_buffer b" and "detectLoopPoints b = Some rs" and "p \<in> set rs"
  shows "\<exists>t j. t \<in> set (candidateEndRegions (int (length_buf b))) \<and>
           snapped (channelData b ! 0) t 2000 (lp_end p) \<and>
           0 \<le> j \<and> j < lp_end p - 1000 \<and> searchStep (lp_end p) dvd j \<and>
           snapped (channelData b ! 0) j 100 (lp_start p)"
proof -
  let ?data = "channelData b ! 0"
  from detectLoopPoints_points [OF assms(2,3)] obtain t
    where t: "t \<in> set (candidateEndRegions (int (length ?data)))" and acc: "accepted_at ?data t p"
    by blast
  from accepted_at_props [OF acc] obtain j where j: "0 \<le> j" "j < lp_end p - 1000"
    "searchStep (lp_end p) dvd j" "lp_start p = findZeroCrossing ?data j 100" by blast
  from acc have e: "lp_end p = findZeroCrossing ?data t 2000" by (simp add: accepted_at_def)
  have "snapped ?data t 2000 (lp_end p)" unfolding e by (rule findZeroCrossing_snapped)
  moreover have "snapped ?data j 100 (lp_start p)" unfolding j(4) by (rule findZeroCrossing_snapped)
  ultimately show ?thesis
    using t j wf_buffer_channel0 [OF assms(1)] by auto
qed

theorem detect_offsets_snapped_witness:
  "wf_buffer blip_2s \<and> detectLoopPoints blip_2s = Some [loop_blip, loop_50] \<and>
   loop_blip \<in> set [loop_blip, loop_50] \<and>
   is_zero_crossing (channelData blip_2s ! 0) (lp_end loop_blip) \<and>
   (\<exists>t j. t \<in> set (candidateEndRegions (int (length_buf blip_2s))) \<and>
          snapped (channelData blip_2s ! 0) t 2000 (lp_end loop_blip) \<and>
          0 \<le> j \<and> j < lp_end loop_blip - 1000 \<and> searchStep (lp_end loop_blip) dvd j \<and>
          snapped (channelData blip_2s ! 0) j 100 (lp_start loop_blip))"
proof -
  have h1: "wf_buffer blip_2s" by (rule wf_blip_2s)
  have h2: "detectLoopPoints blip_2s = Some [loop_blip, loop_50]" by (rule blip_2s_detected)
  have h3: "loop_blip \<in> set [loop_blip, loop_50]" by simp
  have h4: "is_zero_crossing (channelData blip_2s ! 0) (lp_end loop_blip)"
    by (simp add: blip_2s_def loop_blip_def blip_crossing)
  from detect_offsets_snapped [OF h1 h2 h3] h1 h2 h3 h4 show ?thesis by blast
qed

text \<open>
  C2 as stated fails: in the silent 2-second buffer the returned candidate (0, 66150) has
  neither its start nor its end at a sign change, with the next sample or with the one
  before.
\<close>

theorem detect_offsets_zero_crossing_counterexample:
  "detectLoopPoints silent_2s = Some [loop_75, loop_50] \<and>
   \<not> is_zero_crossing (channelData silent_2s ! 0) (lp_start loop_75) \<and>
   \<not> is_zero_crossing (channelData silent_2s ! 0) (lp_end loop_75) \<and>
   \<not> is_zero_crossing (channelData silent_2s ! 0) (lp_end loop_75 - 1)"
proof -
  have "detectLoopPoints silent_2s = Some [loop_75, loop_50]"
    using silent_2s_detected by (simp add: silent_2s_def loop_75_def loop_50_def)
  moreover have "\<not> is_zero_crossing (silence 88200) 0"
    by (rule silence_no_crossing) simp_all
  moreover have "\<not> is_zero_crossing (silence 88200) 66150"
    by (rule silence_no_crossing) simp_all
  moreover have "\<not> is_zero_crossing (silence 88200) 66149"
    by (rule silence_no_crossing) simp_all
  ultimately show ?thesis
    by (simp add: silent_2s_def silent_buffer_def loop_75_def)
qed

text \<open>
  C4. Every candidate returned by detectLoopPoints satisfies
  0 \<le> start < end \<le> frameCount - 1 and end - start \<ge> 1000, and its score is an integer
  between 0 and 100.
\<close>

theorem detect_candidate_bounds:
  assumes "wf_buffer b" and "detectLoopPoints b = Some rs" and "p \<in> set rs"
  shows "0 \<le> lp_start p \<and> lp_start p < lp_end p \<and> lp_end p \<le> int (length_buf b) - 1 \<and>
         1000 \<le> lp_end p - lp_start p \<and> 0 \<le> lp_score p \<and> lp_score p \<le> 100"
proof -
  from detectLoopPoints_points [OF assms(2,3)] obtain t
    where acc: "accepted_at (channelData b ! 0) t p" by blast
  from accepted_at_bounds [OF acc] wf_buffer_channel0 [OF assms(1)]
  show ?thesis by simp
qed

theorem detect_candidate_bounds_witness:
  "wf_buffer silent_2s \<and> detectLoopPoints silent_2s = Some [loop_75, loop_50] \<and>
   loop_50 \<in> set [loop_75, loop_50] \<and>
   0 \<le> lp_start loop_50 \<and> lp_start loop_50 < lp_end loop_50 \<and>
   lp_end loop_50 \<le> int (length_buf silent_2s) - 1 \<and>
   1000 \<le> lp_end loop_50 - lp_start loop_50 \<and> 0 \<le> lp_score loop_50 \<and> lp_score loop_50 \<le> 100"
proof -
  have h1: "wf_buffer silent_2s" by (simp add: silent_2s_def wf_silent_buffer)
  have h2: "detectLoopPoints silent_2s = Some [loop_75, loop_50]"
    using silent_2s_detected by (simp add: silent_2s_def loop_75_def loop_50_def)
  have h3: "loop_50 \<in> set [loop_75, loop_50]" by simp
  from detect_candidate_bounds [OF h1 h2 h3] h1 h2 h3 show ?thesis by blast
qed

text \<open>
  C7. For every buffer whose frameCount is below the half-second floor of 22050 samples,
  detectLoopPoints returns the empty sequence; and for every buffer it returns a sequence
  and does not throw.
\<close>

theorem detect_short_buffer_empty:
  assumes "wf_buffer b"
  shows "(\<exists>rs. detectLoopPoints b = Some rs) \<and>
         (length_buf b < 22050 \<longrightarrow> detectLoopPoints b = Some [])"
proof (intro conjI impI)
  from assms have nc: "0 < numberOfChannels b" by (simp add: wf_buffer_def)
  then show "\<exists>rs. detectLoopPoints b = Some rs" by (rule detectLoopPoints_Some)
  assume short: "length_buf b < 22050"
  let ?data = "channelData b ! 0"
  have len: "length ?data = length_buf b" using assms by (rule wf_buffer_channel0)
  have "fold (region_body ?data) (candidateEndRegions (int (length ?data))) ([], 1) = ([], 1)"
  proof (rule fold_region_body_skip)
    fix t assume "t \<in> set (candidateEndRegions (int (length ?data)))"
    then have "t < int (length ?data)" by (rule candidateEndRegions_bounds)
    then have "findZeroCrossing ?data t 2000 < int (length ?data)"
      by (rule findZeroCrossing_less_length)
    with short len show "findZeroCrossing ?data t 2000 < 22050" by simp
  qed
  with nc show "detectLoopPoints b = Some []"
    by (simp add: detectLoopPoints_def getChannelData_def)
qed

theorem detect_short_buffer_empty_witness:
  "wf_buffer short_buffer \<and> length_buf short_buffer < 22050 \<and>
   detectLoopPoints short_buffer = Some []"
proof -
  have h1: "wf_buffer short_buffer" by (simp add: short_buffer_def wf_buffer_def)
  have h2: "length_buf short_buffer < 22050" by (simp add: short_buffer_def)
  from detect_short_buffer_empty [OF h1] h1 h2 show ?thesis by blast
qed

text \<open>
  C9. The sequence returned by detectLoopPoints is sorted by non-increasing score and
  holds at most 3 candidates.
\<close>

theorem detect_sorted_top3:
  assumes "detectLoopPoints b = Some rs"
  shows "sorted_wrt (\<lambda>p q. lp_score q \<le> lp_score p) rs \<and> length rs \<le> 3"
proof -
  from assms obtain ps where rs: "rs = take 3 (sort_key (\<lambda>p. - lp_score p) ps)"
    by (auto simp: detectLoopPoints_def getChannelData_def Let_def split: if_splits)
  have "sorted (map (\<lambda>p. - lp_score p) (sort_key (\<lambda>p. - lp_score p) ps))"
    by (rule sorted_sort_key)
  then have "sorted_wrt (\<lambda>p q. lp_score q \<le> lp_score p) (sort_key (\<lambda>p. - lp_score p) ps)"
    by (simp add: sorted_map)
  then have "sorted_wrt (\<lambda>p q. lp_score q \<le> lp_score p) rs"
    unfolding rs by (rule sorted_wrt_take)
  then show ?thesis by (simp add: rs)
qed

theorem detect_sorted_top3_witness:
  "detectLoopPoints silent_2s = Some [loop_75, loop_50] \<and>
   sorted_wrt (\<lambda>p q. lp_score q \<le> lp_score p) [loop_75, loop_50] \<and>
   length [loop_75, loop_50] \<le> 3"
proof -
  have h: "detectLoopPoints silent_2s = Some [loop_75, loop_50]"
    using silent_2s_detected by (simp add: silent_2s_def loop_75_def loop_50_def)
  from detect_sorted_top3 [OF h] h show ?thesis by blast
qed

text \<open>
  C10. Every candidate returned by detectLoopPoints satisfies end + 500 < frameCount: for
  any pair whose 500-sample end window would run past the buffer calculateCorrelation
  returns 0, which is below the acceptance threshold of 60.
\<close>

theorem detect_end_window_inside:
  assumes "wf_buffer b" and "detectLoopPoints b = Some rs" and "p \<in> set rs"
  shows "lp_end p + 500 < int (length_buf b) \<and>
         (int (length_buf b) \<le> e + 500 \<longrightarrow> calculateCorrelation (channelData b ! 0) s e 500 = 0)"
proof -
  from detectLoopPoints_points [OF assms(2,3)] obtain t
    where acc: "accepted_at (channelData b ! 0) t p" by blast
  from accepted_at_bounds(3) [OF acc] wf_buffer_channel0 [OF assms(1)]
  show ?thesis by (simp add: calculateCorrelation_def)
qed

theorem detect_end_window_inside_witness:
  "wf_buffer silent_2s \<and> detectLoopPoints silent_2s = Some [loop_75, loop_50] \<and>
   loop_75 \<in> set [loop_75, loop_50] \<and> int (length_buf silent_2s) \<le> 88100 + 500 \<and>
   lp_end loop_75 + 500 < int (length_buf silent_2s) \<and>
   calculateCorrelation (channelData silent_2s ! 0) 0 88100 500 = 0"
proof -
  have h1: "wf_buffer silent_2s" by (simp add: silent_2s_def wf_silent_buffer)
  have h2: "detectLoopPoints silent_2s = Some [loop_75, loop_50]"
    using silent_2s_detected by (simp add: silent_2s_def loop_75_def loop_50_def)
  have h3: "loop_75 \<in> set [loop_75, loop_50]" by simp
  have h4: "int (length_buf silent_2s) \<le> 88100 + 500"
    by (simp add: silent_2s_def silent_buffer_def)
  from detect_end_window_inside [OF h1 h2 h3, of 88100 0] h1 h2 h3 h4 show ?thesis by blast
qed

subsection \<open>WAV export\<close>

text \<open>
  C3 (as amended). exportWavWithSmpl does not validate the loop against the buffer: for
  every buffer and every loop candidate, in range or not, the write succeeds, and the loop
  start and loop end fields of the smpl chunk carry the supplied values as unsigned 32-bit
  numbers (the values modulo 2^32).
\<close>

theorem export_writes_any_loop:
  "\<exists>bytes. exportWavWithSmpl b (Some lp) = Some bytes \<and>
     take 4 (drop (smplOffset b) bytes) = ascii ''smpl'' \<and>
     getUint32 bytes (smplOffset b + 52) = Some (nat (lp_start lp mod 4294967296)) \<and>
     getUint32 bytes (smplOffset b + 56) = Some (nat (lp_end lp mod 4294967296))"
  by (intro exI [of _ "wav_image b (Some lp)"])
     (simp add: exportWavWithSmpl_image smpl_tag loop_fields unat_word32_of_int)

text \<open>
  C3 as stated fails: for a buffer of two frames and a loop ending at sample 2, one past
  the last frame, the write is not rejected, and the smpl chunk of the result (at byte 48)
  carries the loop end 2 (at byte 104).
\<close>

theorem export_out_of_range_loop_counterexample:
  "\<not> loop_in_range two_frames loop_past_end \<and>
   (\<exists>bytes. exportWavWithSmpl two_frames (Some loop_past_end) = Some bytes \<and>
      take 4 (drop 48 bytes) = ascii ''smpl'' \<and> getUint32 bytes 104 = Some 2)"
proof -
  have "getUint32 (wav_image two_frames (Some loop_past_end)) 104 = Some 2"
    using loop_fields(2) [of two_frames loop_past_end]
    by (simp add: smplOffset_def two_frames_def loop_past_end_def)
  moreover have "take 4 (drop 48 (wav_image two_frames (Some loop_past_end))) = ascii ''smpl''"
    using smpl_tag [of two_frames loop_past_end]
    by (simp add: smplOffset_def two_frames_def)
  moreover have "\<not> loop_in_range two_frames loop_past_end"
    by (simp add: loop_in_range_def two_frames_def loop_past_end_def)
  ultimately show ?thesis
    by (simp add: exportWavWithSmpl_image)
qed

text \<open>
  C5. For every buffer and every loop candidate whose start and end are sample offsets
  (non-negative and below 2^32, as every offset into a buffer is), the byte sequence
  returned by exportWavWithSmpl has length outerSize + 8 with
  outerSize = 4 + (8 + 16) + (8 + frameCount * channels * 2) + (8 + 60), and the loop start
  and loop end fields of its smpl chunk hold exactly the start and end of the candidate.
\<close>

theorem export_loop_size_and_fields:
  assumes "0 \<le> lp_start lp" and "lp_start lp < 4294967296"
    and "0 \<le> lp_end lp" and "lp_end lp < 4294967296"
  shows "\<exists>bytes. exportWavWithSmpl b (Some lp) = Some bytes \<and>
           length bytes = outerSize b + 8 \<and>
           take 4 (drop (smplOffset b) bytes) = ascii ''smpl'' \<and>
           map_option int (getUint32 bytes (smplOffset b + 52)) = Some (lp_start lp) \<and>
           map_option int (getUint32 bytes (smplOffset b + 56)) = Some (lp_end lp)"
proof -
  have "length (wav_image b (Some lp)) = outerSize b + 8"
    by (simp add: length_wav_image outerSize_def)
  moreover have "int (unat (word_of_int (lp_start lp) :: 32 word)) = lp_start lp"
    using assms(1,2) by (simp add: unat_word32_of_int)
  moreover have "int (unat (word_of_int (lp_end lp) :: 32 word)) = lp_end lp"
    using assms(3,4) by (simp add: unat_word32_of_int)
  ultimately show ?thesis
    by (intro exI [of _ "wav_image b (Some lp)"]) (simp add: exportWavWithSmpl_image smpl_tag loop_fields)
qed

theorem export_loop_size_and_fields_witness:
  "0 \<le> lp_start stereo_loop \<and> lp_start stereo_loop < 4294967296 \<and>
   0 \<le> lp_end stereo_loop \<and> lp_end stereo_loop < 4294967296 \<and>
   (\<exists>bytes. exportWavWithSmpl stereo_buffer (Some stereo_loop) = Some bytes \<and>
      length bytes = outerSize stereo_buffer + 8 \<and>
      take 4 (drop (smplOffset stereo_buffer) bytes) = ascii ''smpl'' \<and>
      map_option int (getUint32 bytes (smplOffset stereo_buffer + 52)) = Some (lp_start stereo_loop) \<and>
      map_option int (getUint32 bytes (smplOffset stereo_buffer + 56)) = Some (lp_end stereo_loop))"
proof -
  have h1: "0 \<le> lp_start stereo_loop" by (simp add: stereo_loop_def)
  have h2: "lp_start stereo_loop < 4294967296" by (simp add: stereo_loop_def)
  have h3: "0 \<le> lp_end stereo_loop" by (simp add: stereo_loop_def)
  have h4: "lp_end stereo_loop < 4294967296" by (simp add: stereo_loop_def)
  from export_loop_size_and_fields [OF h1 h2 h3 h4, of stereo_buffer] h1 h2 h3 h4
  show ?thesis by blast
qed

text \<open>
  C6. For every buffer that fits the field widths of the format (fewer than 2^16 channels,
  a sample rate and a data size below 2^32) with samples in [-1, 1], reading back the
  header, the format block and the data block of what exportWavWithSmpl writes with a null
  loop recovers the channel count and the sample rate exactly; every sample comes back as
  the 16-bit value the writer stored, and differs from the original by less than 1/32767
  once scaled back.
\<close>

theorem export_parse_roundtrip:
  assumes "wf_buffer b"
    and "numberOfChannels b < 65536" and "sampleRate b < 4294967296"
    and "length_buf b * numberOfChannels b * 2 < 4294967296"
    and "list_all (list_all (\<lambda>x. \<bar>x\<bar> \<le> 1)) (channelData b)"
  shows "\<exists>bytes w. exportWavWithSmpl b None = Some bytes \<and> parse_wav bytes = Some w \<and>
           wav_channels w = numberOfChannels b \<and> wav_rate w = sampleRate b \<and>
           length (wav_samples w) = length_buf b * numberOfChannels b \<and>
           (\<forall>i<length_buf b. \<forall>c<numberOfChannels b.
              wav_samples w ! (i * numberOfChannels b + c)
                = js_trunc (scaled (channelData b ! c ! i)) \<and>
              \<bar>dequantize (wav_samples w ! (i * numberOfChannels b + c)) - channelData b ! c ! i\<bar>
                < 1 / 32767)"
proof -
  let ?nc = "numberOfChannels b"
  let ?w = "\<lparr>wav_channels = ?nc, wav_rate = sampleRate b, wav_samples = map sint (interleaved b)\<rparr>"
  have p: "parse_wav (wav_image b None) = Some ?w"
    using assms(2-4) by (rule parse_wav_image)
  have err: "wav_samples ?w ! (i * ?nc + c) = js_trunc (scaled (channelData b ! c ! i)) \<and>
      \<bar>dequantize (wav_samples ?w ! (i * ?nc + c)) - channelData b ! c ! i\<bar> < 1 / 32767"
    if i: "i < length_buf b" and c: "c < ?nc" for i c
  proof -
    have "i * ?nc + c < i * ?nc + ?nc" using c by simp
    also have "\<dots> = Suc i * ?nc" by simp
    also have "\<dots> \<le> length_buf b * ?nc" using i by (intro mult_le_mono1) simp
    finally have k: "i * ?nc + c < length (interleaved b)" by simp
    have ch: "channelData b ! c \<in> set (channelData b)" using assms(1) c by (simp add: wf_buffer_def)
    then have "length (channelData b ! c) = length_buf b"
      using assms(1) by (simp add: wf_buffer_def list_all_iff)
    then have "channelData b ! c ! i \<in> set (channelData b ! c)" using i by simp
    with ch assms(5) have bound: "\<bar>channelData b ! c ! i\<bar> \<le> 1" by (auto simp: list_all_iff)
    have "wav_samples ?w ! (i * ?nc + c) = sint (interleaved b ! (i * ?nc + c))"
      using k by simp
    also have "\<dots> = js_trunc (scaled (channelData b ! c ! i))"
      using nth_interleaved [OF assms(1) i c] by (simp add: sint_toInt16_scaled)
    finally show ?thesis using dequantize_error [OF bound] by simp
  qed
  show ?thesis
    by (intro exI [of _ "wav_image b None"] exI [of _ ?w] conjI allI impI
          exportWavWithSmpl_image p err)
       simp_all
qed

theorem export_parse_roundtrip_witness:
  "wf_buffer stereo_buffer \<and>
   numberOfChannels stereo_buffer < 65536 \<and> sampleRate stereo_buffer < 4294967296 \<and>
   length_buf stereo_buffer * numberOfChannels stereo_buffer * 2 < 4294967296 \<and>
   list_all (list_all (\<lambda>x. \<bar>x\<bar> \<le> 1)) (channelData stereo_buffer) \<and>
   (\<exists>bytes w. exportWavWithSmpl stereo_buffer None = Some bytes \<and> parse_wav bytes = Some w \<and>
      wav_channels w = numberOfChannels stereo_buffer \<and> wav_rate w = sampleRate stereo_buffer \<and>
      length (wav_samples w) = length_buf stereo_buffer * numberOfChannels stereo_buffer \<and>
      (\<forall>i<length_buf stereo_buffer. \<forall>c<numberOfChannels stereo_buffer.
         wav_samples w ! (i * numberOfChannels stereo_buffer + c)
           = js_trunc (scaled (channelData stereo_buffer ! c ! i)) \<and>
         \<bar>dequantize (wav_samples w ! (i * numberOfChannels stereo_buffer + c))
            - channelData stereo_buffer ! c ! i\<bar> < 1 / 32767))"
proof -
  have h1: "wf_buffer stereo_buffer" by (simp add: stereo_buffer_def wf_buffer_def)
  have h2: "numberOfChannels stereo_buffer < 65536" by (simp add: stereo_buffer_def)
  have h3: "sampleRate stereo_buffer < 4294967296" by (simp add: stereo_buffer_def)
  have h4: "length_buf stereo_buffer * numberOfChannels stereo_buffer * 2 < 4294967296"
    by (simp add: stereo_buffer_def)
  have h5: "list_all (list_all (\<lambda>x. \<bar>x\<bar> \<le> 1)) (channelData stereo_buffer)"
    by (simp add: stereo_buffer_def)
  from export_parse_roundtrip [OF h1 h2 h3 h4 h5] h1 h2 h3 h4 h5 show ?thesis by blast
qed

text \<open>
  C8. exportWavWithSmpl applied to a 1-frame, 1-channel buffer whose sample is 1.0, with a
  null loop, returns exactly 46 bytes; the declared outer size is 4 + (8 + 16) + (8 + 2) = 38
  and the PCM sample is the 16-bit little-endian value 0x7FFF (bytes FF 7F).
\<close>

theorem export_one_sample:
  "\<exists>bytes. exportWavWithSmpl
       \<lparr>numberOfChannels = 1, sampleRate = rate, length_buf = 1, channelData = [[1]]\<rparr> None
       = Some bytes \<and>
     length bytes = 46 \<and> getUint32 bytes 4 = Some 38 \<and> drop 44 bytes = [0xFF, 0x7F] \<and>
     getUint16 bytes 44 = Some 0x7FFF"
proof -
  let ?b = "\<lparr>numberOfChannels = 1, sampleRate = rate, length_buf = 1, channelData = [[1]]\<rparr>"
  have img: "wav_image ?b None = wav_header 38 1 rate 2 @ [0xFF, 0x7F]"
    using interleaved_one_frame [of rate] by (simp add: wav_image_def le16_7FFF)
  have e: "exportWavWithSmpl ?b None = Some (wav_image ?b None)"
    by (rule exportWavWithSmpl_image)
  have l: "length (wav_image ?b None) = 46"
    unfolding img by (simp add: length_wav_header)
  have f: "getUint32 (wav_image ?b None) 4 = Some 38"
    unfolding img by (simp add: wav_header_fields)
  have d: "drop 44 (wav_image ?b None) = [0xFF, 0x7F]"
    unfolding img by (simp add: length_wav_header)
  have "getUint16 (wav_header 38 1 rate 2 @ le16 32767 @ []) 44 = Some (unat (32767 :: 16 word))"
    by (rule getUint16_append) (simp add: length_wav_header)
  then have g: "getUint16 (wav_image ?b None) 44 = Some 0x7FFF"
    unfolding img by (simp add: le16_7FFF)
  from e l f d g show ?thesis by blast
qed

end
